theory Spec2Isabelle
  imports Main "HOL-Library.Sublist"
begin

section \<open>wsh: a shallow embedding of \<^verbatim>\<open>wsh.c\<close>\<close>

text \<open>
  The interpreter is one process with global mutable state (the history array, the
  local variable array, the process environment) that talks to the operating system
  through \<^verbatim>\<open>pipe\<close>, \<^verbatim>\<open>fork\<close>, \<^verbatim>\<open>wait\<close>, \<^verbatim>\<open>chdir\<close> and the standard streams.
  The model passes the global state explicitly, records every observable action of the
  interpreter process as an event of a trace, and takes the answers of the operating
  system from an oracle that sees the trace so far. C strings are \<open>string\<close>s; a
  \<^verbatim>\<open>char *\<close> that may be \<^verbatim>\<open>NULL\<close> is a \<open>string option\<close>; a \<^verbatim>\<open>NULL\<close>-terminated
  \<^verbatim>\<open>argv\<close> is a \<open>string list\<close>.

  What the model takes for granted: \<^verbatim>\<open>malloc\<close> and \<^verbatim>\<open>strdup\<close> succeed (the source never
  checks \<^verbatim>\<open>strdup\<close>); \<^verbatim>\<open>setenv\<close> and \<^verbatim>\<open>unsetenv\<close> fail only on a name they refuse;
  \<^verbatim>\<open>getenv\<close>, \<^verbatim>\<open>setenv\<close>, \<^verbatim>\<open>unsetenv\<close> and \<^verbatim>\<open>atoi\<close> behave as the GNU C library has them;
  \<^verbatim>\<open>chdir(NULL)\<close> is a call that fails. A forked child is a process of its own: the
  model follows the parent and records, with each successful \<^verbatim>\<open>fork\<close>, what the child
  goes on to do. The function \<^verbatim>\<open>main\<close> (reading lines, the prompt) and the unused
  \<^verbatim>\<open>set_local_var\<close> are not modelled.
\<close>

subsection \<open>Constants of the source\<close>

definition MAX_LINE_LENGTH :: nat where "MAX_LINE_LENGTH = 1024"
definition MAX_ARGS :: nat where "MAX_ARGS = 128"
definition MAX_HISTORY :: int where "MAX_HISTORY = 5"
definition MAX_LOCAL_VARS :: nat where "MAX_LOCAL_VARS = 128"
definition EXIT_FAILURE :: int where "EXIT_FAILURE = 1"

subsection \<open>State, events and the operating system\<close>

text \<open>What a forked child does: its redirections and the \<^verbatim>\<open>argv\<close> it hands to \<^verbatim>\<open>execvp\<close>.\<close>

record child =
  child_stdin :: "int option"
  child_stdout :: "int option"
  child_argv :: "string list"

datatype event =
    Stdout string
  | Stderr string
  | Perror string
  | Pipe_ok int int
  | Pipe_failed
  | Fork_ok nat child
  | Fork_failed
  | Close int
  | Waitpid nat
  | Wait_any
  | Chdir "string option" bool

text \<open>
  \<open>Running\<close>: the interpreter is alive. \<open>Exited c\<close>: it called \<^verbatim>\<open>exit(c)\<close>.
  \<open>Undefined\<close>: it ran into undefined behaviour of C (a \<^verbatim>\<open>NULL\<close> passed to
  \<^verbatim>\<open>strcmp\<close>, an access outside an array), after which nothing is known.
\<close>

datatype status = Running | Exited int | Undefined

record shell =
  history :: "string list"
  history_capacity :: int
  add_to_history_enabled :: bool
  localVars :: "(string \<times> string) list"
  env :: "string list"
  trace :: "event list"
  status :: status

text \<open>
  \<open>history\<close> holds \<^verbatim>\<open>history[0 .. current_history_count - 1]\<close>, oldest first, so
  \<^verbatim>\<open>current_history_count\<close> is its length. \<open>localVars\<close> holds
  \<^verbatim>\<open>localVars[0 .. localVarCount - 1]\<close>. \<open>env\<close> holds the entries of \<^verbatim>\<open>environ\<close>, the
  raw strings \<^verbatim>\<open>NAME=VALUE\<close> in their order.

  The oracle: \<open>os_pipe\<close> answers \<^verbatim>\<open>pipe\<close> with the two descriptors or \<open>None\<close>;
  \<open>os_fork\<close> answers \<^verbatim>\<open>fork\<close> in the parent with the child's (positive) identifier or
  \<open>None\<close> for -1; \<open>os_chdir\<close> says whether \<^verbatim>\<open>chdir\<close> succeeds; \<open>os_realloc\<close>
  whether \<^verbatim>\<open>realloc\<close> to that many entries succeeds.
\<close>

record os =
  os_pipe :: "event list \<Rightarrow> (int \<times> int) option"
  os_fork :: "event list \<Rightarrow> nat option"
  os_chdir :: "event list \<Rightarrow> string \<Rightarrow> bool"
  os_realloc :: "event list \<Rightarrow> int \<Rightarrow> bool"

definition emit :: "event \<Rightarrow> shell \<Rightarrow> shell" where
  "emit e st = st\<lparr>trace := trace st @ [e]\<rparr>"

definition emits :: "event list \<Rightarrow> shell \<Rightarrow> shell" where
  "emits es st = st\<lparr>trace := trace st @ es\<rparr>"

definition c_exit :: "int \<Rightarrow> shell \<Rightarrow> shell" where
  "c_exit c st = st\<lparr>status := Exited (c mod 256)\<rparr>"

definition undefined_behaviour :: "shell \<Rightarrow> shell" where
  "undefined_behaviour st = st\<lparr>status := Undefined\<rparr>"

text \<open>The globals as \<^verbatim>\<open>main\<close> leaves them before the first line, in a given environment.\<close>

definition initial_shell :: "string list \<Rightarrow> shell" where
  "initial_shell e =
     \<lparr>history = [], history_capacity = MAX_HISTORY, add_to_history_enabled = True,
      localVars = [], env = e, trace = [], status = Running\<rparr>"

subsection \<open>C library: \<^verbatim>\<open>strtok\<close>, \<^verbatim>\<open>atoi\<close>, \<^verbatim>\<open>printf("%d")\<close>\<close>

text \<open>
  All tokens that repeated calls of \<^verbatim>\<open>strtok\<close> with the delimiters \<open>ds\<close> return:
  the maximal non-empty runs of characters outside \<open>ds\<close>. \<open>cur\<close> is the run read so far.
\<close>

fun strtok_from :: "string \<Rightarrow> string \<Rightarrow> string \<Rightarrow> string list" where
  "strtok_from ds cur [] = (if cur = [] then [] else [cur])"
| "strtok_from ds cur (c # cs) =
     (if c \<in> set ds
      then (if cur = [] then strtok_from ds [] cs else cur # strtok_from ds [] cs)
      else strtok_from ds (cur @ [c]) cs)"

definition strtok_all :: "string \<Rightarrow> string \<Rightarrow> string list" where
  "strtok_all ds s = strtok_from ds [] s"

definition newline :: char where "newline = CHR 0x0A"
definition tab :: char where "tab = CHR 0x09"

text \<open>The characters of \<^verbatim>\<open>" \t\n\v\f\r"\<close>.\<close>

definition c_whitespace :: string where
  "c_whitespace = [CHR '' '', CHR 0x09, CHR 0x0A, CHR 0x0B, CHR 0x0C, CHR 0x0D]"

definition digit_of :: "char \<Rightarrow> int option" where
  "digit_of c =
     (let n = (of_char c :: nat)
      in if 48 \<le> n \<and> n \<le> 57 then Some (int n - 48) else None)"

fun digits_value :: "int \<Rightarrow> string \<Rightarrow> int" where
  "digits_value acc [] = acc"
| "digits_value acc (c # cs) =
     (case digit_of c of None \<Rightarrow> acc | Some d \<Rightarrow> digits_value (10 * acc + d) cs)"

text \<open>
  \<^verbatim>\<open>atoi\<close> as the C library of the platform computes it, \<^verbatim>\<open>(int) strtol(s, NULL, 10)\<close>:
  leading white space, an optional sign, the longest run of digits (0 if there is none),
  saturated to a 64-bit \<^verbatim>\<open>long\<close> and truncated to a 32-bit \<^verbatim>\<open>int\<close>.
\<close>

definition to_long :: "int \<Rightarrow> int" where
  "to_long v = max (- (2 ^ 63)) (min (2 ^ 63 - 1) v)"

definition to_int32 :: "int \<Rightarrow> int" where
  "to_int32 v = (v + 2 ^ 31) mod 2 ^ 32 - 2 ^ 31"

definition atoi :: "string \<Rightarrow> int" where
  "atoi s =
     (case dropWhile (\<lambda>c. c \<in> set c_whitespace) s of
        [] \<Rightarrow> 0
      | c # cs \<Rightarrow>
          if c = CHR ''-'' then to_int32 (to_long (- digits_value 0 cs))
          else if c = CHR ''+'' then to_int32 (to_long (digits_value 0 cs))
          else to_int32 (to_long (digits_value 0 (c # cs))))"

fun string_of_nat :: "nat \<Rightarrow> string" where
  "string_of_nat n =
     (if n < 10 then [char_of (48 + n)]
      else string_of_nat (n div 10) @ [char_of (48 + n mod 10)])"

declare string_of_nat.simps [simp del]

text \<open>\<^verbatim>\<open>printf("%d", v)\<close>.\<close>

definition string_of_int :: "int \<Rightarrow> string" where
  "string_of_int v =
     (if v < 0 then CHR ''-'' # string_of_nat (nat (- v)) else string_of_nat (nat v))"

text \<open>\<^verbatim>\<open>argv[i]\<close> of a \<^verbatim>\<open>NULL\<close>-terminated array: \<open>None\<close> is the terminator.\<close>

definition arg :: "string list \<Rightarrow> nat \<Rightarrow> string option" where
  "arg argv i = (if i < length argv then Some (argv ! i) else None)"

subsection \<open>The history ring\<close>

text \<open>\<^verbatim>\<open>strspn(cmd, " \t\n\v\f\r") == strlen(cmd)\<close>; true of the empty string too.\<close>

definition all_whitespace :: "string \<Rightarrow> bool" where
  "all_whitespace cmd = list_all (\<lambda>c. c \<in> set c_whitespace) cmd"

text \<open>
  \<^verbatim>\<open>add_to_history\<close>. When the array is full its first entry is read and freed, which
  needs an entry to exist; the new entry is written at index \<^verbatim>\<open>current_history_count\<close>,
  which must lie inside the \<^verbatim>\<open>history_capacity\<close> allocated entries.
\<close>

definition add_to_history :: "string \<Rightarrow> shell \<Rightarrow> shell" where
  "add_to_history cmd st =
     (if add_to_history_enabled st = False then st
      else if cmd = [] then st
      else if all_whitespace cmd then st
      else if history st \<noteq> [] \<and> last (history st) = cmd then st
      else if int (length (history st)) = history_capacity st
      then (if history st = [] then undefined_behaviour st
            else st\<lparr>history := tl (history st) @ [cmd]\<rparr>)
      else if history_capacity st < int (length (history st)) + 1
      then undefined_behaviour st
      else st\<lparr>history := history st @ [cmd]\<rparr>)"

text \<open>The \<^verbatim>\<open>while\<close> loop of \<^verbatim>\<open>set_history_size\<close>: drop the oldest entry while there are
  more than \<open>newSize\<close>.\<close>

fun evict_oldest :: "int \<Rightarrow> string list \<Rightarrow> string list" where
  "evict_oldest newSize [] = []"
| "evict_oldest newSize (h # hs) =
     (if int (length (h # hs)) > newSize then evict_oldest newSize hs else h # hs)"

text \<open>
  \<^verbatim>\<open>set_history_size\<close>. The flag is set and the oldest entries are dropped before
  \<^verbatim>\<open>realloc\<close> is tried; a failed \<^verbatim>\<open>realloc\<close> to a positive size returns with the old
  capacity. The final clamp of the count changes nothing after the loop.
\<close>

definition set_history_size :: "os \<Rightarrow> int \<Rightarrow> shell \<Rightarrow> shell" where
  "set_history_size sys newSize st =
     (if newSize < 0 then emit (Stderr (''Invalid history size.'' @ [newline])) st
      else
        let st1 = st\<lparr>add_to_history_enabled := (if newSize = 0 then False else True)\<rparr>;
            st2 = st1\<lparr>history := evict_oldest newSize (history st1)\<rparr>
        in if os_realloc sys (trace st2) newSize = False \<and> newSize > 0
           then emit (Perror ''Unable to resize history'') st2
           else st2\<lparr>history_capacity := newSize,
                    history := take (nat newSize) (history st2)\<rparr>)"

text \<open>\<^verbatim>\<open>print_history\<close>: newest first, numbered from 1.\<close>

fun history_lines :: "nat \<Rightarrow> string list \<Rightarrow> event list" where
  "history_lines k [] = []"
| "history_lines k (h # hs) =
     Stdout (string_of_int (int k) @ '') '' @ h @ [newline]) # history_lines (Suc k) hs"

definition print_history :: "shell \<Rightarrow> shell" where
  "print_history st =
     (if history st = [] then st else emits (history_lines 1 (rev (history st))) st)"

subsection \<open>Variables\<close>

text \<open>The search loops over \<^verbatim>\<open>localVars\<close>: the first entry with the name wins.\<close>

fun find_local :: "(string \<times> string) list \<Rightarrow> string \<Rightarrow> string option" where
  "find_local [] name = None"
| "find_local ((n, v) # vs) name = (if n = name then Some v else find_local vs name)"

text \<open>
  The test of the C library for an entry of \<^verbatim>\<open>environ\<close>: its first \<^verbatim>\<open>strlen(name)\<close>
  characters are the name and the next one is \<^verbatim>\<open>=\<close>. The name is not looked at any
  further, so the name \<^verbatim>\<open>A=b\<close> matches the entry \<^verbatim>\<open>A=b=c\<close>.
\<close>

definition entry_matches :: "string \<Rightarrow> string \<Rightarrow> bool" where
  "entry_matches name e = (take (length name + 1) e = name @ ''='')"

fun find_entry :: "string \<Rightarrow> string list \<Rightarrow> string option" where
  "find_entry name [] = None"
| "find_entry name (e # es) =
     (if entry_matches name e then Some (drop (length name + 1) e) else find_entry name es)"

text \<open>
  \<^verbatim>\<open>getenv\<close>: \<^verbatim>\<open>NULL\<close> for the empty name, else what follows \<^verbatim>\<open>name=\<close> in the first
  entry that matches.
\<close>

definition getenv :: "shell \<Rightarrow> string \<Rightarrow> string option" where
  "getenv st name = (if name = [] then None else find_entry name (env st))"

text \<open>
  \<^verbatim>\<open>substitute_variable\<close>: the new value of \<^verbatim>\<open>*arg\<close>. The local variables are searched
  only when \<^verbatim>\<open>getenv\<close> returns \<^verbatim>\<open>NULL\<close>.
\<close>

definition substitute_variable :: "shell \<Rightarrow> string \<Rightarrow> string" where
  "substitute_variable st a =
     (case a of
        [] \<Rightarrow> a
      | c # varName \<Rightarrow>
          if c = CHR ''$''
          then (let varValue =
                      (case getenv st varName of
                         None \<Rightarrow> find_local (localVars st) varName
                       | Some v \<Rightarrow> Some v)
                in case varValue of
                     None \<Rightarrow> []
                   | Some v \<Rightarrow> if v = [] then [] else v)
          else a)"

text \<open>\<^verbatim>\<open>substitute_variables_in_command\<close>; the source never calls it.\<close>

definition substitute_variables_in_command :: "shell \<Rightarrow> string list \<Rightarrow> string list" where
  "substitute_variables_in_command st argv = map (substitute_variable st) argv"

subsection \<open>Tokenizing and validating\<close>

text \<open>
  \<^verbatim>\<open>process_input\<close>: at most \<^verbatim>\<open>MAX_ARGS - 1\<close> tokens split at space and newline; a last
  token \<^verbatim>\<open>&\<close> is removed and sets the flag. The result is \<^verbatim>\<open>argv\<close> and the new value of
  \<^verbatim>\<open>*background\<close>.
\<close>

definition process_input :: "string \<Rightarrow> int \<Rightarrow> string list \<times> int" where
  "process_input input background =
     (let argv = take (MAX_ARGS - 1) (strtok_all [CHR '' '', newline] input)
      in if argv = [] then (argv, background)
         else if last argv = ''&'' then (butlast argv, 1)
         else (argv, background))"

definition isBuiltInCommand :: "string \<Rightarrow> bool" where
  "isBuiltInCommand command =
     (command \<in> set [''cd'', ''exit'', ''history'', ''export'', ''local'', ''vars''])"

definition has_equals :: "string \<Rightarrow> bool" where
  "has_equals s = (CHR ''='' \<in> set s)"

definition usage_error :: "string \<Rightarrow> event" where
  "usage_error a0 =
     Stdout (a0 @ '': incorrect usage. Expected format: '' @ a0 @ '' VAR=value'' @ [newline])"

text \<open>\<^verbatim>\<open>isValidCommand\<close>: the verdict and the state after its diagnostics.\<close>

definition isValidCommand :: "string list \<Rightarrow> shell \<Rightarrow> bool \<times> shell" where
  "isValidCommand argv st =
     (case arg argv 0 of
        None \<Rightarrow> (False, emit (Stdout (''Error: Command is empty.'' @ [newline])) st)
      | Some a0 \<Rightarrow>
          if a0 = [] then (False, emit (Stdout (''Error: Command is empty.'' @ [newline])) st)
          else if a0 = ''cd''
          then (case arg argv 1 of
                  None \<Rightarrow> (False, emit (Stdout (''cd: wrong number of arguments. Usage: cd <directory>'' @ [newline])) st)
                | Some a1 \<Rightarrow>
                    (case arg argv 2 of
                       None \<Rightarrow> (True, st)
                     | Some a2 \<Rightarrow> (False, emit (Stdout (''cd: wrong number of arguments. Usage: cd <directory>'' @ [newline])) st)))
          else if a0 = ''exit'' \<and> (case arg argv 1 of None \<Rightarrow> False | Some a1 \<Rightarrow> True)
          then (False, emit (Stdout (''exit: does not take any arguments.'' @ [newline])) st)
          else if (a0 = ''export'' \<or> a0 = ''local'') \<and>
                  (case arg argv 1 of
                     None \<Rightarrow> True
                   | Some a1 \<Rightarrow>
                       (case arg argv 2 of
                          None \<Rightarrow> (if has_equals a1 then False else True)
                        | Some a2 \<Rightarrow> True))
          then (False, emit (usage_error a0) st)
          else if a0 = ''history''
          then (case arg argv 1 of
                  None \<Rightarrow> (True, st)
                | Some a1 \<Rightarrow>
                    if a1 = ''set''
                    then (case arg argv 2 of
                            None \<Rightarrow> (False, emit (Stdout (''history set: incorrect usage.'' @ [newline])) st)
                          | Some a2 \<Rightarrow>
                              if atoi a2 \<le> 0
                              then (False, emit (Stdout (''history set: incorrect usage.'' @ [newline])) st)
                              else (case arg argv 3 of
                                      None \<Rightarrow> (True, st)
                                    | Some a3 \<Rightarrow> (False, emit (Stdout (''history set: incorrect usage.'' @ [newline])) st)))
                    else (False, emit (Stdout (''history: incorrect usage. Usage: history [set <size>]'' @ [newline])) st))
          else (True, st))"

subsection \<open>External commands and pipelines\<close>

definition background_message :: "nat \<Rightarrow> event" where
  "background_message pid =
     Stdout (''[PID '' @ string_of_int (int pid) @ '' running in background]'' @ [newline])"

text \<open>
  \<^verbatim>\<open>execute_command\<close>: substitute every argument, drop the empty ones, validate, fork.
  The child only calls \<^verbatim>\<open>execvp\<close>; the parent waits for it or reports it.
\<close>

definition execute_command :: "os \<Rightarrow> string list \<Rightarrow> int \<Rightarrow> shell \<Rightarrow> shell" where
  "execute_command sys argv background st =
     (let substituted = map (substitute_variable st) argv;
          filtered_argv = filter (\<lambda>a. a \<noteq> []) substituted;
          (valid, st1) = isValidCommand filtered_argv st
      in if valid = False
         then emit (Stdout (''Error: Command validation failed.'' @ [newline])) st1
         else (case os_fork sys (trace st1) of
                 None \<Rightarrow> c_exit (- 1) (emit (Perror ''fork failed'') (emit Fork_failed st1))
               | Some pid \<Rightarrow>
                   let st2 = emit (Fork_ok pid \<lparr>child_stdin = None, child_stdout = None,
                                               child_argv = filtered_argv\<rparr>) st1
                   in if background = 0 then emit (Waitpid pid) st2
                      else emit (background_message pid) st2))"

text \<open>The \<^verbatim>\<open>pipe\<close> call of a stage that is not the last one.\<close>

definition create_pipe :: "os \<Rightarrow> bool \<Rightarrow> shell \<Rightarrow> (shell \<times> (int \<times> int) option) option" where
  "create_pipe sys needed st =
     (if needed
      then (case os_pipe sys (trace st) of
              None \<Rightarrow> None
            | Some (r, w) \<Rightarrow> Some (emit (Pipe_ok r w) st, Some (r, w)))
      else Some (st, None))"

definition pipe_fds :: "(int \<times> int) option \<Rightarrow> int list" where
  "pipe_fds p = (case p of None \<Rightarrow> [] | Some (r, w) \<Rightarrow> [r, w])"

text \<open>
  The first loop of \<^verbatim>\<open>execute_piped_commands\<close>, over the commands still to start.
  \<open>fd_in\<close> is the read end kept from the previous stage (0 before the first), \<open>pipefds\<close>
  the descriptors stored so far, \<open>pid\<close> the result of the last \<^verbatim>\<open>fork\<close>. The child
  tokenizes its own command with \<^verbatim>\<open>process_input\<close> and passes the tokens to \<^verbatim>\<open>execvp\<close>
  as they are; what it assigns to \<^verbatim>\<open>background\<close> stays in the child.
\<close>

fun spawn_stages ::
  "os \<Rightarrow> string list \<Rightarrow> int \<Rightarrow> int \<Rightarrow> int list \<Rightarrow> nat option \<Rightarrow> shell
     \<Rightarrow> shell \<times> int list \<times> nat option" where
  "spawn_stages sys [] background fd_in pipefds pid st = (st, pipefds, pid)"
| "spawn_stages sys (c # cs) background fd_in pipefds pid st =
     (case create_pipe sys (cs \<noteq> []) st of
        None \<Rightarrow>
          (c_exit EXIT_FAILURE (emit (Perror ''Couldn't Pipe'') (emit Pipe_failed st)),
           pipefds, pid)
      | Some (st1, p) \<Rightarrow>
          (case os_fork sys (trace st1) of
             None \<Rightarrow>
               (c_exit EXIT_FAILURE (emit (Perror ''fork'') (emit Fork_failed st1)),
                pipefds @ pipe_fds p, pid)
           | Some new_pid \<Rightarrow>
               let st2 = emit (Fork_ok new_pid
                                 \<lparr>child_stdin = (if fd_in = 0 then None else Some fd_in),
                                  child_stdout = map_option snd p,
                                  child_argv = fst (process_input c background)\<rparr>) st1;
                   st3 = (if fd_in = 0 then st2 else emit (Close fd_in) st2);
                   st4 = (case p of None \<Rightarrow> st3 | Some (r, w) \<Rightarrow> emit (Close w) st3);
                   fd_in' = (case p of None \<Rightarrow> fd_in | Some (r, w) \<Rightarrow> r)
               in spawn_stages sys cs background fd_in' (pipefds @ pipe_fds p)
                    (Some new_pid) st4))"

text \<open>
  \<^verbatim>\<open>execute_piped_commands\<close>. With no command the array \<^verbatim>\<open>pipefds\<close> would have a
  negative size. After the loop the parent closes every stored descriptor again, then
  waits once per command, for any child, or prints the last identifier.
\<close>

definition execute_piped_commands :: "os \<Rightarrow> string list \<Rightarrow> int \<Rightarrow> shell \<Rightarrow> shell" where
  "execute_piped_commands sys commands background st =
     (if commands = [] then undefined_behaviour st
      else
        let (st1, pipefds, pid) = spawn_stages sys commands background 0 [] None st
        in if status st1 = Running
           then (let st2 = emits (map Close pipefds) st1
                 in if background = 0
                    then emits (replicate (length commands) Wait_any) st2
                    else (case pid of
                            None \<Rightarrow> undefined_behaviour st2
                          | Some p \<Rightarrow> emit (background_message p) st2))
           else st1)"

subsection \<open>Built-in commands\<close>

definition cmd_cd :: "os \<Rightarrow> string option \<Rightarrow> shell \<Rightarrow> shell" where
  "cmd_cd sys path st =
     (case path of
        None \<Rightarrow> emit (Perror ''cd failed'') (emit (Chdir None False) st)
      | Some p \<Rightarrow>
          if os_chdir sys (trace st) p then emit (Chdir (Some p) True) st
          else emit (Perror ''cd failed'') (emit (Chdir (Some p) False) st))"

definition cmd_exit :: "string list \<Rightarrow> shell \<Rightarrow> shell" where
  "cmd_exit argv st =
     (case arg argv 1 of
        Some a1 \<Rightarrow> emit (Stderr (''exit: does not take any arguments'' @ [newline])) st
      | None \<Rightarrow> c_exit 0 st)"

text \<open>
  \<^verbatim>\<open>name = strtok(argv[1], "="); value = strtok(NULL, "");\<close> of \<^verbatim>\<open>built_in_command\<close>:
  leading \<^verbatim>\<open>=\<close> are skipped, the name runs to the next \<^verbatim>\<open>=\<close>, the value is all that
  follows it, and each is \<^verbatim>\<open>NULL\<close> when nothing is left for it.
\<close>

definition split_assignment :: "string \<Rightarrow> string option \<times> string option" where
  "split_assignment s =
     (let s1 = dropWhile (\<lambda>c. c = CHR ''='') s
      in if s1 = [] then (None, None)
         else let name = takeWhile (\<lambda>c. c \<noteq> CHR ''='') s1;
                  rest = drop 1 (dropWhile (\<lambda>c. c \<noteq> CHR ''='') s1)
              in (Some name, if rest = [] then None else Some rest))"

text \<open>
  \<^verbatim>\<open>setenv\<close> and \<^verbatim>\<open>unsetenv\<close> refuse an empty name and a name with \<^verbatim>\<open>=\<close>.
  \<^verbatim>\<open>setenv(name, value, 1)\<close> replaces the first entry that matches or appends a new
  one; \<^verbatim>\<open>unsetenv\<close> removes every entry that matches.
\<close>

fun setenv_entries :: "string \<Rightarrow> string \<Rightarrow> string list \<Rightarrow> string list" where
  "setenv_entries name value [] = [name @ ''='' @ value]"
| "setenv_entries name value (e # es) =
     (if entry_matches name e then (name @ ''='' @ value) # es
      else e # setenv_entries name value es)"

definition unsetenv_entries :: "string \<Rightarrow> string list \<Rightarrow> string list" where
  "unsetenv_entries name es = filter (\<lambda>e. entry_matches name e = False) es"

definition env_name_ok :: "string \<Rightarrow> bool" where
  "env_name_ok name = (if name = [] then False else if has_equals name then False else True)"

definition cmd_export :: "string option \<Rightarrow> string option \<Rightarrow> shell \<Rightarrow> shell" where
  "cmd_export name value st =
     (case name of
        None \<Rightarrow> emit (Stderr (''Usage: export VAR=value'' @ [newline])) st
      | Some n \<Rightarrow>
          if value = None \<or> value = Some []
          then (if env_name_ok n then st\<lparr>env := unsetenv_entries n (env st)\<rparr>
                else emit (Perror ''unsetenv failed'') st)
          else (if env_name_ok n
                then st\<lparr>env := setenv_entries n (case value of None \<Rightarrow> [] | Some v \<Rightarrow> v)
                                  (env st)\<rparr>
                else emit (Perror ''setenv failed'') st))"

fun remove_local :: "string \<Rightarrow> (string \<times> string) list \<Rightarrow> (string \<times> string) list" where
  "remove_local name [] = []"
| "remove_local name ((n, v) # vs) = (if n = name then vs else (n, v) # remove_local name vs)"

fun update_local :: "string \<Rightarrow> string \<Rightarrow> (string \<times> string) list \<Rightarrow> (string \<times> string) list" where
  "update_local name value [] = []"
| "update_local name value ((n, v) # vs) =
     (if n = name then (n, value) # vs else (n, v) # update_local name value vs)"

text \<open>
  \<^verbatim>\<open>cmd_local\<close>. \<^verbatim>\<open>strncpy\<close> with \<^verbatim>\<open>MAX_LINE_LENGTH - 1\<close> keeps that many characters. A
  \<^verbatim>\<open>NULL\<close> name reaches \<^verbatim>\<open>strcmp\<close> as soon as there is an entry to compare with, and
  \<^verbatim>\<open>strncpy\<close> when an entry is added.
\<close>

definition cmd_local :: "string option \<Rightarrow> string option \<Rightarrow> shell \<Rightarrow> shell" where
  "cmd_local name value st =
     (if value = None \<or> value = Some []
      then (case name of
              None \<Rightarrow> if localVars st = [] then st else undefined_behaviour st
            | Some n \<Rightarrow> st\<lparr>localVars := remove_local n (localVars st)\<rparr>)
      else (case name of
              None \<Rightarrow> undefined_behaviour st
            | Some n \<Rightarrow>
                let v = take (MAX_LINE_LENGTH - 1) (case value of None \<Rightarrow> [] | Some x \<Rightarrow> x)
                in if find_local (localVars st) n = None
                   then (if length (localVars st) < MAX_LOCAL_VARS
                         then st\<lparr>localVars := localVars st @ [(take (MAX_LINE_LENGTH - 1) n, v)]\<rparr>
                         else st)
                   else st\<lparr>localVars := update_local n v (localVars st)\<rparr>))"

definition cmd_vars :: "shell \<Rightarrow> shell" where
  "cmd_vars st = emits (map (\<lambda>(n, v). Stdout (n @ ''='' @ v @ [newline])) (localVars st)) st"

text \<open>
  \<^verbatim>\<open>execute_history_command\<close>. \<open>run\<close> stands for the recursive call of
  \<^verbatim>\<open>parse_and_execute\<close>; \<open>None\<close> means that it does not return. The flag is restored only
  if the interpreter gets that far.
\<close>

definition execute_history_command ::
  "(shell \<Rightarrow> string \<Rightarrow> shell option) \<Rightarrow> int \<Rightarrow> shell \<Rightarrow> shell option" where
  "execute_history_command run command_number st =
     (if command_number < 1 \<or> command_number > int (length (history st))
      then Some (emit (Stdout (''Invalid history command number.'' @ [newline])) st)
      else
        let cmd = history st ! (length (history st) - nat command_number);
            oldHistoryState = add_to_history_enabled st
        in (case run (st\<lparr>add_to_history_enabled := False\<rparr>) cmd of
              None \<Rightarrow> None
            | Some st1 \<Rightarrow>
                Some (if status st1 = Running
                      then st1\<lparr>add_to_history_enabled := oldHistoryState\<rparr>
                      else st1)))"

definition cmd_history_control ::
  "os \<Rightarrow> (shell \<Rightarrow> string \<Rightarrow> shell option) \<Rightarrow> string list \<Rightarrow> shell \<Rightarrow> shell option" where
  "cmd_history_control sys run argv st =
     (case arg argv 1 of
        None \<Rightarrow> Some (print_history st)
      | Some a1 \<Rightarrow>
          (case (if a1 = ''set'' then arg argv 2 else None) of
             Some a2 \<Rightarrow> Some (set_history_size sys (atoi a2) st)
           | None \<Rightarrow> execute_history_command run (atoi a1) st))"

text \<open>
  \<^verbatim>\<open>built_in_command\<close>, on the state; its only caller ignores the returned flag.
\<close>

definition built_in_command ::
  "os \<Rightarrow> (shell \<Rightarrow> string \<Rightarrow> shell option) \<Rightarrow> string list \<Rightarrow> shell \<Rightarrow> shell option" where
  "built_in_command sys run argv st =
     (case arg argv 0 of
        None \<Rightarrow> Some (undefined_behaviour st)
      | Some a0 \<Rightarrow>
          if a0 = ''exit'' then Some (cmd_exit argv st)
          else if a0 = ''cd'' then Some (cmd_cd sys (arg argv 1) st)
          else if a0 = ''history'' then cmd_history_control sys run argv st
          else (case (if a0 = ''export'' then arg argv 1 else None) of
                  Some a1 \<Rightarrow>
                    Some (cmd_export (fst (split_assignment a1)) (snd (split_assignment a1)) st)
                | None \<Rightarrow>
                   (case (if a0 = ''local'' then arg argv 1 else None) of
                      Some a1 \<Rightarrow>
                        Some (cmd_local (fst (split_assignment a1)) (snd (split_assignment a1)) st)
                    | None \<Rightarrow> if a0 = ''vars'' then Some (cmd_vars st) else Some st)))"

subsection \<open>One line\<close>

definition first_token :: "string \<Rightarrow> string option" where
  "first_token tempInput =
     (case strtok_all [CHR '' '', tab, newline] tempInput of [] \<Rightarrow> None | t # ts \<Rightarrow> Some t)"

definition strip_newline :: "string \<Rightarrow> string" where
  "strip_newline input = (if last input = newline then butlast input else input)"

text \<open>The \<^verbatim>\<open>else\<close> branch of \<^verbatim>\<open>parse_and_execute\<close>: split at \<^verbatim>\<open>|\<close> and execute.\<close>

definition execute_external :: "os \<Rightarrow> string \<Rightarrow> shell \<Rightarrow> shell" where
  "execute_external sys input st =
     (let commands = take (MAX_ARGS - 1) (strtok_all ''|'' input)
      in if length commands = 1
         then (let (argv, background) = process_input (hd commands) 0
               in execute_command sys argv background st)
         else execute_piped_commands sys commands 0 st)"

text \<open>
  The branch of a built-in first token. \<^verbatim>\<open>argv[1]\<close> is read whatever \<^verbatim>\<open>argv[0]\<close> is;
  with no token at all it lies behind the terminator.
\<close>

definition execute_builtin ::
  "os \<Rightarrow> (shell \<Rightarrow> string \<Rightarrow> shell option) \<Rightarrow> string \<Rightarrow> string \<Rightarrow> shell \<Rightarrow> shell option" where
  "execute_builtin sys run firstToken input st =
     (let (argv, background) = process_input input 0
      in if argv = [] then Some (undefined_behaviour st)
         else if firstToken = ''history'' \<and> arg argv 1 = None then Some (print_history st)
         else built_in_command sys run argv st)"

text \<open>
  The body of \<^verbatim>\<open>parse_and_execute\<close>. An empty line is indexed at -1. The last step
  passes the first token to \<^verbatim>\<open>strcmp\<close> even when there is none. Nothing after a call
  of \<^verbatim>\<open>exit\<close> is executed.
\<close>

definition parse_and_execute_body ::
  "(shell \<Rightarrow> string \<Rightarrow> shell option) \<Rightarrow> os \<Rightarrow> shell \<Rightarrow> string \<Rightarrow> shell option" where
  "parse_and_execute_body run sys st input0 =
     (if input0 = [] then Some (undefined_behaviour st)
      else
        let input = strip_newline input0;
            dupInp = input;
            firstToken = first_token (take (MAX_LINE_LENGTH - 1) input);
            isBuiltIn = (case firstToken of None \<Rightarrow> False | Some t \<Rightarrow> isBuiltInCommand t)
        in (case (if isBuiltIn
                  then execute_builtin sys run (case firstToken of None \<Rightarrow> [] | Some t \<Rightarrow> t) input st
                  else Some (execute_external sys input st)) of
              None \<Rightarrow> None
            | Some st1 \<Rightarrow>
                Some (if status st1 = Running
                      then (if isBuiltIn then st1
                            else (case firstToken of
                                    None \<Rightarrow> undefined_behaviour st1
                                  | Some t \<Rightarrow>
                                      if t = ''history'' then st1 else add_to_history dupInp st1))
                      else st1)))"

text \<open>
  \<^verbatim>\<open>parse_and_execute\<close> calls itself through \<^verbatim>\<open>execute_history_command\<close>. The first
  argument bounds the depth of that recursion; \<open>None\<close> says that the bound was not enough.
\<close>

primrec parse_and_execute :: "nat \<Rightarrow> os \<Rightarrow> shell \<Rightarrow> string \<Rightarrow> shell option" where
  "parse_and_execute 0 sys st input = None"
| "parse_and_execute (Suc n) sys st input =
     parse_and_execute_body (\<lambda>s l. parse_and_execute n sys s l) sys st input"

subsection \<open>The specification's resolution rule, and inputs for the examples\<close>

text \<open>
  What the environment binds a name to: an entry \<^verbatim>\<open>NAME=VALUE\<close> binds the name before
  its first \<^verbatim>\<open>=\<close> to what follows it, and the first entry for a name counts.
\<close>

fun env_binding :: "string list \<Rightarrow> string \<Rightarrow> string option" where
  "env_binding [] name = None"
| "env_binding (e # es) name =
     (if has_equals e \<and> takeWhile (\<lambda>c. c \<noteq> CHR ''='') e = name
      then Some (drop 1 (dropWhile (\<lambda>c. c \<noteq> CHR ''='') e))
      else env_binding es name)"

text \<open>
  Variable resolution as the specification words it: the value of the environment if
  the name is bound there, else the value of the variable store if bound there, else
  the empty string.
\<close>

definition resolve_spec ::
  "string list \<Rightarrow> (string \<times> string) list \<Rightarrow> string \<Rightarrow> string" where
  "resolve_spec environment store name =
     (case env_binding environment name of
        Some v \<Rightarrow> v
      | None \<Rightarrow> (case map_of store name of Some v \<Rightarrow> v | None \<Rightarrow> []))"

text \<open>
  An operating system on which every call succeeds, one on which no \<^verbatim>\<open>fork\<close> does,
  and one on which no \<^verbatim>\<open>pipe\<close> does.
\<close>

definition example_os :: os where
  "example_os =
     \<lparr>os_pipe = (\<lambda>tr. Some (3 + int (length tr), 4 + int (length tr))),
      os_fork = (\<lambda>tr. Some (100 + length tr)),
      os_chdir = (\<lambda>tr p. True),
      os_realloc = (\<lambda>tr n. True)\<rparr>"

definition fork_fails_os :: os where
  "fork_fails_os = example_os\<lparr>os_fork := (\<lambda>tr. None)\<rparr>"

definition pipe_fails_os :: os where
  "pipe_fails_os = example_os\<lparr>os_pipe := (\<lambda>tr. None)\<rparr>"

definition fresh_shell :: shell where
  "fresh_shell = initial_shell []"

definition shell_with_foo :: shell where
  "shell_with_foo = fresh_shell\<lparr>localVars := [(''FOO'', ''bar'')]\<rparr>"

definition ring_of_two :: shell where
  "ring_of_two = fresh_shell\<lparr>history_capacity := 2\<rparr>"

definition shell_with_ls :: shell where
  "shell_with_ls = fresh_shell\<lparr>history := [''ls'']\<rparr>"

text \<open>The state after the line \<^verbatim>\<open>export A=b=c\<close>; an environment and a store that both
  bind \<^verbatim>\<open>FOO\<close>.\<close>

definition shell_after_export :: shell where
  "shell_after_export = fresh_shell\<lparr>env := [''A=b=c'']\<rparr>"

definition shell_with_both :: shell where
  "shell_with_both = fresh_shell\<lparr>env := [''FOO=env''], localVars := [(''FOO'', ''local'')]\<rparr>"

subsection \<open>Notions used to state the properties\<close>

text \<open>
  A line takes the built-in branch of \<^verbatim>\<open>parse_and_execute\<close> when the first token of
  its copy \<^verbatim>\<open>tempInput\<close> is a built-in name.
\<close>

definition is_builtin_line :: "string \<Rightarrow> bool" where
  "is_builtin_line line =
     (case first_token (take (MAX_LINE_LENGTH - 1) (strip_newline line)) of
        None \<Rightarrow> False
      | Some t \<Rightarrow> isBuiltInCommand t)"

text \<open>Two states that differ at most in the trace and the status.\<close>

definition only_io :: "shell \<Rightarrow> shell \<Rightarrow> bool" where
  "only_io st st' =
     (history st' = history st \<and> history_capacity st' = history_capacity st
      \<and> add_to_history_enabled st' = add_to_history_enabled st
      \<and> localVars st' = localVars st \<and> env st' = env st)"

text \<open>A callee that, started with recording disabled, appends nothing to the ring.\<close>

definition never_appends :: "(shell \<Rightarrow> string \<Rightarrow> shell option) \<Rightarrow> bool" where
  "never_appends run =
     (\<forall>s l s'. run s l = Some s' \<longrightarrow> add_to_history_enabled s = False
        \<longrightarrow> suffix (history s') (history s))"

text \<open>
  A failed \<^verbatim>\<open>pipe\<close> or \<^verbatim>\<open>fork\<close>; events without one. The children forked and the
  pipes created among some events. An event is \<open>plain\<close> when it is no answer to
  \<^verbatim>\<open>pipe\<close> or \<^verbatim>\<open>fork\<close>. \<open>agrees sys tr es\<close>: every answer to \<^verbatim>\<open>pipe\<close> or \<^verbatim>\<open>fork\<close> in
  \<open>es\<close> is the one that the operating system gives at the trace before it, \<open>tr\<close>
  being the trace before \<open>es\<close>.
\<close>

definition spawn_failure :: "event \<Rightarrow> bool" where
  "spawn_failure e = (e = Pipe_failed \<or> e = Fork_failed)"

definition quiet :: "event list \<Rightarrow> bool" where
  "quiet es = (\<forall>e\<in>set es. spawn_failure e = False)"

definition is_fork :: "event \<Rightarrow> bool" where
  "is_fork e = (case e of Fork_ok p c \<Rightarrow> True | _ \<Rightarrow> False)"

definition is_pipe :: "event \<Rightarrow> bool" where
  "is_pipe e = (case e of Pipe_ok r w \<Rightarrow> True | _ \<Rightarrow> False)"

definition forks :: "event list \<Rightarrow> nat" where
  "forks es = length (filter is_fork es)"

definition pipes :: "event list \<Rightarrow> nat" where
  "pipes es = length (filter is_pipe es)"

definition plain :: "event \<Rightarrow> bool" where
  "plain e =
     (case e of
        Pipe_ok r w \<Rightarrow> False
      | Pipe_failed \<Rightarrow> False
      | Fork_ok p c \<Rightarrow> False
      | Fork_failed \<Rightarrow> False
      | _ \<Rightarrow> True)"

fun agrees :: "os \<Rightarrow> event list \<Rightarrow> event list \<Rightarrow> bool" where
  "agrees sys tr [] = True"
| "agrees sys tr (e # es) =
     ((case e of
         Pipe_ok r w \<Rightarrow> os_pipe sys tr = Some (r, w)
       | Pipe_failed \<Rightarrow> os_pipe sys tr = None
       | Fork_ok p c \<Rightarrow> os_fork sys tr = Some p
       | Fork_failed \<Rightarrow> os_fork sys tr = None
       | _ \<Rightarrow> True)
      \<and> agrees sys (tr @ [e]) es)"

text \<open>
  \<open>started sys st st' k j\<close>: from \<open>st\<close> to \<open>st'\<close> the events added hold no failure and
  agree with the operating system, \<open>k\<close> children were forked and \<open>j\<close> pipes created.
  \<open>failed sys st st' k c\<close>: the events added end with the first failure, which is the
  answer of the operating system there, followed by its report and by nothing else;
  \<open>k\<close> children were forked before it; the interpreter has exited with status \<open>c\<close>.
\<close>

definition started :: "os \<Rightarrow> shell \<Rightarrow> shell \<Rightarrow> nat \<Rightarrow> nat \<Rightarrow> bool" where
  "started sys st st' k j =
     (\<exists>es. trace st' = trace st @ es \<and> quiet es \<and> agrees sys (trace st) es
        \<and> forks es = k \<and> pipes es = j)"

definition failed :: "os \<Rightarrow> shell \<Rightarrow> shell \<Rightarrow> nat \<Rightarrow> int \<Rightarrow> bool" where
  "failed sys st st' k c =
     (\<exists>es f m. trace st' = trace st @ es @ [f, Perror m] \<and> quiet es
        \<and> agrees sys (trace st) (es @ [f]) \<and> forks es = k \<and> spawn_failure f
        \<and> status st' = Exited c)"

definition outcome :: "os \<Rightarrow> shell \<Rightarrow> shell \<Rightarrow> bool" where
  "outcome sys st st' =
     ((\<exists>k j. started sys st st' k j) \<or> (\<exists>k. failed sys st st' k 1)
      \<or> (\<exists>k. failed sys st st' k 255))"





text \<open>An event that writes to the standard output; a run that adds no such event.\<close>

definition prints :: "event \<Rightarrow> bool" where
  "prints e = (case e of Stdout m \<Rightarrow> True | _ \<Rightarrow> False)"

definition silent :: "shell \<Rightarrow> shell \<Rightarrow> bool" where
  "silent st st' = (\<exists>es. trace st' = trace st @ es \<and> list_all (\<lambda>e. prints e = False) es)"

section \<open>Properties\<close>

subsection \<open>Evaluation\<close>

lemmas line_defs =
  parse_and_execute_body_def strip_newline_def newline_def Let_def first_token_def
  strtok_all_def tab_def MAX_LINE_LENGTH_def isBuiltInCommand_def execute_builtin_def
  process_input_def MAX_ARGS_def built_in_command_def arg_def cmd_history_control_def
  atoi_def c_whitespace_def digit_of_def to_long_def to_int32_def split_assignment_def

lemma string_of_small [simp]:
  "string_of_int 1 = ''1''" "string_of_int 2 = ''2''" "string_of_int 100 = ''100''"
  by code_simp+

lemma letters_not_whitespace [simp]:
  "all_whitespace ''a'' = False" "all_whitespace ''b'' = False" "all_whitespace ''c'' = False"
  "all_whitespace ''ls'' = False" "all_whitespace ''pwd'' = False"
  by (simp_all add: all_whitespace_def c_whitespace_def)

subsection \<open>The history ring\<close>

lemma history_lines_nth:
  "history_lines k xs =
     map (\<lambda>i. Stdout (string_of_int (int (k + i)) @ '') '' @ xs ! i @ [newline]))
       [0..<length xs]"
proof (induction xs arbitrary: k)
  case Nil
  show ?case by simp
next
  case (Cons x xs)
  have "[0..<length (x # xs)] = 0 # map Suc [0..<length xs]"
    by (simp add: upt_conv_Cons map_Suc_upt del: upt_Suc)
  then show ?case
    by (simp add: Cons.IH comp_def add.assoc add.left_commute del: upt_Suc)
qed

lemma print_history_lists:
  "trace (print_history s) = trace s @
     map (\<lambda>i. Stdout (string_of_int (int (Suc i)) @ '') '' @ rev (history s) ! i @ [newline]))
       [0..<length (history s)]"
  by (simp add: print_history_def emits_def history_lines_nth)

lemma add_to_history_occupancy:
  "int (length (history st)) \<le> history_capacity st \<Longrightarrow>
   int (length (history (add_to_history line st))) \<le> history_capacity st"
  by (auto simp add: add_to_history_def undefined_behaviour_def)

text \<open>
  C7. Appending a line equal to the most recently stored entry changes nothing, whatever
  the state; appending the same line twice is the same as appending it once, and on a
  new ring leaves exactly one entry (none for a blank line, which is never stored);
  appending \<^verbatim>\<open>ls\<close>, \<^verbatim>\<open>ls\<close>, \<^verbatim>\<open>pwd\<close> to a new ring stores \<^verbatim>\<open>[ls, pwd]\<close>.
\<close>

theorem add_to_history_coalesces:
  "add_to_history line (st\<lparr>history := h @ [line]\<rparr>) = st\<lparr>history := h @ [line]\<rparr>
   \<and> add_to_history line (add_to_history line st) = add_to_history line st
   \<and> history (add_to_history line (add_to_history line (initial_shell e)))
       = (if all_whitespace line then [] else [line])
   \<and> history (add_to_history ''pwd'' (add_to_history ''ls'' (add_to_history ''ls''
        (initial_shell e)))) = [''ls'', ''pwd'']"
proof -
  have "add_to_history line (st\<lparr>history := h @ [line]\<rparr>) = st\<lparr>history := h @ [line]\<rparr>"
    by (simp add: add_to_history_def)
  moreover have "add_to_history line (add_to_history line st) = add_to_history line st"
    by (simp add: add_to_history_def undefined_behaviour_def)
  moreover have "history (add_to_history line (add_to_history line (initial_shell e)))
       = (if all_whitespace line then [] else [line])"
    by (auto simp add: add_to_history_def initial_shell_def MAX_HISTORY_def all_whitespace_def)
  moreover have "history (add_to_history ''pwd'' (add_to_history ''ls'' (add_to_history ''ls''
        (initial_shell e)))) = [''ls'', ''pwd'']"
    by (simp add: add_to_history_def initial_shell_def MAX_HISTORY_def)
  ultimately show ?thesis by blast
qed

text \<open>
  C8. On a full ring (as many entries as its positive capacity) with recording
  enabled, appending a line that is not blank and differs from the newest entry drops
  the oldest entry and stores the line last, so the ring stays exactly full. The
  listing of any ring prints, for i from 1, the i-th newest entry as \<^verbatim>\<open>i) entry\<close>.
  With capacity 2, appending \<^verbatim>\<open>a\<close>, \<^verbatim>\<open>b\<close>, \<^verbatim>\<open>c\<close> stores \<^verbatim>\<open>[b, c]\<close> and the listing is
  \<^verbatim>\<open>1) c\<close>, \<^verbatim>\<open>2) b\<close>.
\<close>

theorem add_to_history_evicts_oldest:
  assumes "int (length (history st)) = history_capacity st"
    and "0 < history_capacity st"
    and "add_to_history_enabled st"
    and "all_whitespace line = False"
    and "last (history st) \<noteq> line"
  shows "history (add_to_history line st) = tl (history st) @ [line]
       \<and> int (length (history (add_to_history line st))) = history_capacity st
       \<and> status (add_to_history line st) = status st
       \<and> trace (print_history s) = trace s @
           map (\<lambda>i. Stdout (string_of_int (int (Suc i)) @ '') '' @ rev (history s) ! i @ [newline]))
             [0..<length (history s)]
       \<and> history (add_to_history ''c'' (add_to_history ''b'' (add_to_history ''a'' ring_of_two)))
           = [''b'', ''c'']
       \<and> trace (print_history
            (add_to_history ''c'' (add_to_history ''b'' (add_to_history ''a'' ring_of_two))))
           = [Stdout (''1) c'' @ [newline]), Stdout (''2) b'' @ [newline])]"
proof -
  from assms have ne: "history st \<noteq> []" by auto
  from assms(4) have l: "line \<noteq> []" by (auto simp: all_whitespace_def)
  have h: "history (add_to_history line st) = tl (history st) @ [line]"
    using assms ne l by (simp add: add_to_history_def)
  have s: "status (add_to_history line st) = status st"
    using assms ne l by (simp add: add_to_history_def)
  have len: "int (length (history (add_to_history line st))) = history_capacity st"
    using assms(1) ne by (simp add: h)
  have ex: "add_to_history ''c'' (add_to_history ''b'' (add_to_history ''a'' ring_of_two))
       = ring_of_two\<lparr>history := [''b'', ''c'']\<rparr>"
    by (simp add: add_to_history_def ring_of_two_def fresh_shell_def initial_shell_def)
  have ex2: "trace (print_history (ring_of_two\<lparr>history := [''b'', ''c'']\<rparr>))
      = [Stdout (''1) c'' @ [newline]), Stdout (''2) b'' @ [newline])]"
    by (simp add: print_history_def emits_def ring_of_two_def fresh_shell_def initial_shell_def)
  show ?thesis using h s len ex ex2 print_history_lists by simp
qed

theorem add_to_history_evicts_oldest_witness:
  "int (length (history (ring_of_two\<lparr>history := [''a'', ''b'']\<rparr>)))
     = history_capacity (ring_of_two\<lparr>history := [''a'', ''b'']\<rparr>)
   \<and> 0 < history_capacity (ring_of_two\<lparr>history := [''a'', ''b'']\<rparr>)
   \<and> add_to_history_enabled (ring_of_two\<lparr>history := [''a'', ''b'']\<rparr>)
   \<and> all_whitespace ''c'' = False
   \<and> last (history (ring_of_two\<lparr>history := [''a'', ''b'']\<rparr>)) \<noteq> ''c''
   \<and> history (add_to_history ''c'' (ring_of_two\<lparr>history := [''a'', ''b'']\<rparr>)) = [''b'', ''c'']"
proof -
  let ?s = "ring_of_two\<lparr>history := [''a'', ''b'']\<rparr>"
  have a: "int (length (history ?s)) = history_capacity ?s"
    by (simp add: ring_of_two_def)
  have b: "0 < history_capacity ?s"
    by (simp add: ring_of_two_def)
  have c: "add_to_history_enabled ?s"
    by (simp add: ring_of_two_def fresh_shell_def initial_shell_def)
  have d: "all_whitespace ''c'' = False"
    by simp
  have e: "last (history ?s) \<noteq> ''c''"
    by simp
  from add_to_history_evicts_oldest [OF a b c d e] a b c d e show ?thesis
    by simp
qed

text \<open>
  C5, as the code has it. Resizing the ring to 0 disables recording and drops every
  stored entry: afterwards the ring is empty, its capacity is 0, and appending does
  nothing. The line \<^verbatim>\<open>history set 0\<close> does exactly this resize.
\<close>

theorem set_history_size_zero_clears:
  "history (set_history_size sys 0 st) = []
   \<and> add_to_history_enabled (set_history_size sys 0 st) = False
   \<and> history_capacity (set_history_size sys 0 st) = 0
   \<and> add_to_history line (set_history_size sys 0 st) = set_history_size sys 0 st
   \<and> parse_and_execute (Suc n) sys st ''history set 0'' = Some (set_history_size sys 0 st)"
proof -
  have "parse_and_execute (Suc n) sys st ''history set 0'' = Some (set_history_size sys 0 st)"
    by (simp add: line_defs)
  then show ?thesis
    by (simp add: set_history_size_def Let_def add_to_history_def)
qed

text \<open>
  C5, as the claim states it, fails: with \<^verbatim>\<open>ls\<close> stored, the line \<^verbatim>\<open>history set 0\<close>
  leaves a ring that no longer holds it.
\<close>

theorem history_set_zero_counterexample:
  "map_option history (parse_and_execute 1 example_os shell_with_ls ''history set 0'')
     \<noteq> Some (history shell_with_ls)"
  by (simp add: line_defs set_history_size_def shell_with_ls_def)

subsection \<open>Variable resolution\<close>

lemma find_local_map_of: "find_local vs name = map_of vs name"
  by (induction vs) auto

lemma entry_matchesD:
  assumes "entry_matches name e"
  shows "e = name @ CHR ''='' # drop (length name + 1) e"
proof -
  have "take (length name + 1) e @ drop (length name + 1) e = e"
    by (rule append_take_drop_id)
  moreover from assms have "take (length name + 1) e = name @ [CHR ''='']"
    by (simp add: entry_matches_def)
  ultimately have "(name @ [CHR ''='']) @ drop (length name + 1) e = e"
    by (simp only:)
  then show ?thesis by simp
qed

lemma entry_matchesI: "entry_matches name (name @ CHR ''='' # r)"
  by (simp add: entry_matches_def)

lemma no_equals_takeWhile:
  assumes "has_equals name = False"
  shows "takeWhile (\<lambda>c. c \<noteq> CHR ''='') (name @ CHR ''='' # r) = name"
    and "dropWhile (\<lambda>c. c \<noteq> CHR ''='') (name @ CHR ''='' # r) = CHR ''='' # r"
proof -
  have n: "\<forall>c\<in>set name. c \<noteq> CHR ''=''"
    using assms by (auto simp add: has_equals_def)
  show "takeWhile (\<lambda>c. c \<noteq> CHR ''='') (name @ CHR ''='' # r) = name"
    using n by (simp add: takeWhile_append2)
  show "dropWhile (\<lambda>c. c \<noteq> CHR ''='') (name @ CHR ''='' # r) = CHR ''='' # r"
    using n by (simp add: dropWhile_append2)
qed

lemma has_equals_split:
  assumes "has_equals e"
  shows "\<exists>r. e = takeWhile (\<lambda>c. c \<noteq> CHR ''='') e @ CHR ''='' # r"
proof -
  let ?d = "dropWhile (\<lambda>c. c \<noteq> CHR ''='') e"
  from assms have ne: "?d \<noteq> []"
    by (auto simp add: has_equals_def)
  then have "hd ?d = CHR ''=''"
    using hd_dropWhile [of "\<lambda>c. c \<noteq> CHR ''=''" e] by simp
  with ne have "?d = CHR ''='' # tl ?d"
    by (cases ?d) auto
  moreover have "e = takeWhile (\<lambda>c. c \<noteq> CHR ''='') e @ ?d"
    by simp
  ultimately have "e = takeWhile (\<lambda>c. c \<noteq> CHR ''='') e @ CHR ''='' # tl ?d"
    by (simp only:)
  then show ?thesis ..
qed

lemma entry_matches_iff:
  assumes "has_equals name = False"
  shows "entry_matches name e
           = (has_equals e \<and> takeWhile (\<lambda>c. c \<noteq> CHR ''='') e = name)"
proof
  assume "entry_matches name e"
  then have e: "e = name @ CHR ''='' # drop (length name + 1) e"
    by (rule entry_matchesD)
  have "has_equals (name @ CHR ''='' # drop (length name + 1) e)"
    by (simp add: has_equals_def)
  moreover note no_equals_takeWhile(1) [OF assms, of "drop (length name + 1) e"]
  ultimately show "has_equals e \<and> takeWhile (\<lambda>c. c \<noteq> CHR ''='') e = name"
    by (subst (1 2) e) simp
next
  assume a: "has_equals e \<and> takeWhile (\<lambda>c. c \<noteq> CHR ''='') e = name"
  then obtain r where "e = takeWhile (\<lambda>c. c \<noteq> CHR ''='') e @ CHR ''='' # r"
    using has_equals_split by blast
  with a have "e = name @ CHR ''='' # r" by simp
  then show "entry_matches name e"
    by (simp add: entry_matches_def)
qed

lemma entry_value:
  assumes "has_equals name = False" and "entry_matches name e"
  shows "drop (length name + 1) e = drop 1 (dropWhile (\<lambda>c. c \<noteq> CHR ''='') e)"
proof -
  from assms(2) have e: "e = name @ CHR ''='' # drop (length name + 1) e"
    by (rule entry_matchesD)
  have "drop 1 (dropWhile (\<lambda>c. c \<noteq> CHR ''='') (name @ CHR ''='' # drop (length name + 1) e))
          = drop (length name + 1) e"
    by (simp add: no_equals_takeWhile(2) [OF assms(1)])
  then show ?thesis
    by (subst (2) e) simp
qed

text \<open>For a name without \<^verbatim>\<open>=\<close> the library's search finds the environment's binding.\<close>

lemma find_entry_env_binding:
  "has_equals name = False \<Longrightarrow> find_entry name es = env_binding es name"
proof (induction es)
  case Nil
  show ?case by simp
next
  case (Cons e es)
  show ?case
  proof (cases "entry_matches name e")
    case True
    with entry_matches_iff [OF Cons.prems, of e] entry_value [OF Cons.prems True]
    show ?thesis by simp
  next
    case False
    with entry_matches_iff [OF Cons.prems, of e] Cons.IH [OF Cons.prems]
    show ?thesis by auto
  qed
qed

lemma find_entry_setenv:
  "find_entry name (setenv_entries name v es) = Some v"
  by (induction es) (auto simp add: entry_matches_def)

text \<open>
  C6, as the code has it. A token \<^verbatim>\<open>$name\<close> becomes what \<^verbatim>\<open>getenv\<close> finds for the
  name, else the variable store's value, else the empty string. For a non-empty name
  without \<^verbatim>\<open>=\<close> that is the rule of the specification: the environment's binding
  of the name if there is one, whatever the store holds, else the store's, else the
  empty string; and after \<^verbatim>\<open>export name=v\<close> the token resolves to \<^verbatim>\<open>v\<close>.
\<close>

theorem substitute_variable_resolves:
  "substitute_variable st (CHR ''$'' # name)
     = (case getenv st name of
          Some v \<Rightarrow> v
        | None \<Rightarrow> (case map_of (localVars st) name of Some v \<Rightarrow> v | None \<Rightarrow> []))
   \<and> (name \<noteq> [] \<longrightarrow> has_equals name = False \<longrightarrow>
        substitute_variable st (CHR ''$'' # name) = resolve_spec (env st) (localVars st) name
        \<and> (\<forall>v. env_binding (env st) name = Some v \<longrightarrow>
               substitute_variable st (CHR ''$'' # name) = v)
        \<and> (env_binding (env st) name = None \<longrightarrow> map_of (localVars st) name = None \<longrightarrow>
               substitute_variable st (CHR ''$'' # name) = [])
        \<and> (\<forall>v. v \<noteq> [] \<longrightarrow>
               substitute_variable (cmd_export (Some name) (Some v) st) (CHR ''$'' # name) = v))"
proof (intro conjI impI allI)
  show code: "substitute_variable st (CHR ''$'' # name)
     = (case getenv st name of
          Some v \<Rightarrow> v
        | None \<Rightarrow> (case map_of (localVars st) name of Some v \<Rightarrow> v | None \<Rightarrow> []))"
    by (simp add: substitute_variable_def find_local_map_of split: option.splits)
  assume ne: "name \<noteq> []" and eq: "has_equals name = False"
  then have g: "getenv st name = env_binding (env st) name"
    by (simp add: getenv_def find_entry_env_binding)
  show "substitute_variable st (CHR ''$'' # name) = resolve_spec (env st) (localVars st) name"
    unfolding code g resolve_spec_def ..
  show "substitute_variable st (CHR ''$'' # name) = v" if "env_binding (env st) name = Some v" for v
    unfolding code g using that by simp
  show "substitute_variable st (CHR ''$'' # name) = []"
    if "env_binding (env st) name = None" and "map_of (localVars st) name = None"
    unfolding code g using that by simp
  show "substitute_variable (cmd_export (Some name) (Some v) st) (CHR ''$'' # name) = v"
    if "v \<noteq> []" for v
    using that ne eq
    by (simp add: substitute_variable_def getenv_def cmd_export_def env_name_ok_def
        find_entry_setenv)
qed

theorem substitute_variable_resolves_witness:
  "''FOO'' \<noteq> [] \<and> has_equals ''FOO'' = False
   \<and> env_binding (env shell_with_both) ''FOO'' = Some ''env''
   \<and> map_of (localVars shell_with_both) ''FOO'' = Some ''local''
   \<and> substitute_variable shell_with_both ''$FOO'' = ''env''
   \<and> env_binding (env (shell_with_both\<lparr>env := []\<rparr>)) ''FOO'' = None
   \<and> substitute_variable (shell_with_both\<lparr>env := []\<rparr>) ''$FOO'' = ''local''"
proof -
  have a: "''FOO'' \<noteq> []" by simp
  have b: "has_equals ''FOO'' = False" by (simp add: has_equals_def)
  have c: "env_binding (env shell_with_both) ''FOO'' = Some ''env''"
    by (simp add: shell_with_both_def has_equals_def)
  have d: "map_of (localVars shell_with_both) ''FOO'' = Some ''local''"
    by (simp add: shell_with_both_def)
  have e: "env_binding (env (shell_with_both\<lparr>env := []\<rparr>)) ''FOO'' = None"
    by simp
  have r1: "resolve_spec (env shell_with_both) (localVars shell_with_both) ''FOO'' = ''env''"
    by (simp add: resolve_spec_def c)
  have r2: "resolve_spec (env (shell_with_both\<lparr>env := []\<rparr>))
              (localVars (shell_with_both\<lparr>env := []\<rparr>)) ''FOO'' = ''local''"
    by (simp add: resolve_spec_def shell_with_both_def)
  have f: "substitute_variable shell_with_both ''$FOO'' = ''env''"
    using substitute_variable_resolves [of shell_with_both "''FOO''", THEN conjunct2,
        rule_format, OF a b, THEN conjunct1] r1
    by (rule trans)
  have g: "substitute_variable (shell_with_both\<lparr>env := []\<rparr>) ''$FOO'' = ''local''"
    using substitute_variable_resolves [of "shell_with_both\<lparr>env := []\<rparr>" "''FOO''",
        THEN conjunct2, rule_format, OF a b, THEN conjunct1] r2
    by (rule trans)
  show ?thesis
    by (intro conjI) (rule a b c d e f g)+
qed

text \<open>
  C6, as the claim states it, fails for a name with \<^verbatim>\<open>=\<close>. The line \<^verbatim>\<open>export A=b=c\<close>
  leaves the environment entry \<^verbatim>\<open>A=b=c\<close>, which binds \<^verbatim>\<open>A\<close> and nothing else; the
  store is empty, so the rule of the specification gives the empty string for the
  name \<^verbatim>\<open>A=b\<close>. The code resolves the token \<^verbatim>\<open>$A=b\<close> to \<^verbatim>\<open>c\<close>.
\<close>

theorem name_with_equals_counterexample:
  "parse_and_execute 1 example_os fresh_shell ''export A=b=c'' = Some shell_after_export
   \<and> resolve_spec (env shell_after_export) (localVars shell_after_export) ''A=b'' = []
   \<and> substitute_variable shell_after_export ''$A=b'' = ''c''
   \<and> substitute_variable shell_after_export ''$A=b''
       \<noteq> resolve_spec (env shell_after_export) (localVars shell_after_export) ''A=b''"
  by (simp add: line_defs cmd_export_def env_name_ok_def has_equals_def entry_matches_def
      shell_after_export_def fresh_shell_def initial_shell_def resolve_spec_def
      substitute_variable_def getenv_def)

subsection \<open>Lines evaluated\<close>

lemmas run_defs =
  line_defs execute_external_def execute_piped_commands_def execute_command_def
  create_pipe_def pipe_fds_def emit_def emits_def c_exit_def EXIT_FAILURE_def
  undefined_behaviour_def isValidCommand_def substitute_variable_def getenv_def
  add_to_history_def all_whitespace_def background_message_def
  example_os_def fresh_shell_def shell_with_foo_def initial_shell_def MAX_HISTORY_def
  fork_fails_os_def pipe_fails_os_def

text \<open>
  C1, on the code. The line \<^verbatim>\<open>sleep 5 | cat &\<close> starts both stages and then waits twice;
  no identifier is printed. The flag is parsed only in the children. The single
  command \<^verbatim>\<open>sleep 5 &\<close> is reported and not waited for.
\<close>

theorem detached_pipeline_is_waited_for:
  "map_option trace (parse_and_execute 1 example_os fresh_shell ''sleep 5 | cat &'') =
     Some [Pipe_ok 3 4,
           Fork_ok 101 \<lparr>child_stdin = None, child_stdout = Some 4,
                        child_argv = [''sleep'', ''5'']\<rparr>,
           Close 4,
           Fork_ok 103 \<lparr>child_stdin = Some 3, child_stdout = None, child_argv = [''cat'']\<rparr>,
           Close 3, Close 3, Close 4, Wait_any, Wait_any]
   \<and> map_option trace (parse_and_execute 1 example_os fresh_shell ''sleep 5 &'') =
       Some [Fork_ok 100 \<lparr>child_stdin = None, child_stdout = None,
                          child_argv = [''sleep'', ''5'']\<rparr>,
             Stdout (''[PID 100 running in background]'' @ [newline])]"
  by (simp add: run_defs)

text \<open>
  The same holds of every line that splits at \<^verbatim>\<open>|\<close> into two or more commands: the
  flag passed on is 0 whatever the tokens are, and a pipeline that leaves the
  interpreter running has printed nothing and ends with one \<^verbatim>\<open>wait\<close> per command.
\<close>

lemma multi_stage_line_gets_no_flag:
  "length (take (MAX_ARGS - 1) (strtok_all ''|'' input)) \<noteq> 1 \<Longrightarrow>
   execute_external sys input st
     = execute_piped_commands sys (take (MAX_ARGS - 1) (strtok_all ''|'' input)) 0 st"
  by (simp add: execute_external_def Let_def)

lemma silent_refl [simp]: "silent st st"
  by (simp add: silent_def)

lemma silent_emit: "silent a b \<Longrightarrow> prints e = False \<Longrightarrow> silent a (emit e b)"
  by (auto simp add: silent_def emit_def)

lemma silent_status_only [simp]: "silent a (c_exit k b) = silent a b"
  by (simp add: silent_def c_exit_def)

lemma prints_simps [simp]:
  "prints (Perror m) = False" "prints Pipe_failed = False" "prints Fork_failed = False"
  "prints (Pipe_ok r w) = False" "prints (Fork_ok p c) = False" "prints (Close fd) = False"
  by (simp_all add: prints_def)

lemma spawn_stages_silent:
  "silent a b \<Longrightarrow> silent a (fst (spawn_stages sys cs bg fd pf pid b))"
proof (induction cs arbitrary: fd pf pid b)
  case Nil
  then show ?case by simp
next
  case (Cons c cs)
  show ?case
  proof (cases "create_pipe sys (cs \<noteq> []) b")
    case None
    then show ?thesis using Cons.prems by (simp add: silent_emit)
  next
    case (Some sp)
    obtain st1 p where sp: "sp = (st1, p)" by (cases sp) auto
    from Some sp Cons.prems have s1: "silent a st1"
      by (auto simp add: create_pipe_def silent_emit split: if_splits option.splits)
    note piped = Some
    show ?thesis
    proof (cases "os_fork sys (trace st1)")
      case None
      then show ?thesis using piped sp s1 by (simp add: silent_emit)
    next
      case (Some new_pid)
      let ?st2 = "emit (Fork_ok new_pid
                     \<lparr>child_stdin = (if fd = 0 then None else Some fd),
                      child_stdout = map_option snd p,
                      child_argv = fst (process_input c bg)\<rparr>) st1"
      let ?st3 = "if fd = 0 then ?st2 else emit (Close fd) ?st2"
      let ?st4 = "case p of None \<Rightarrow> ?st3 | Some (r, w) \<Rightarrow> emit (Close w) ?st3"
      let ?fd = "case p of None \<Rightarrow> fd | Some (r, w) \<Rightarrow> r"
      have s4: "silent a ?st4"
        using s1 by (auto simp add: silent_emit split: option.splits)
      have eq: "spawn_stages sys (c # cs) bg fd pf pid b
            = spawn_stages sys cs bg ?fd (pf @ pipe_fds p) (Some new_pid) ?st4"
        using piped sp Some by (simp add: Let_def)
      from Cons.IH [OF s4, of ?fd "pf @ pipe_fds p" "Some new_pid"]
      show ?thesis unfolding eq .
    qed
  qed
qed

lemma pipeline_is_never_detached:
  assumes "cs \<noteq> []" and "status (execute_piped_commands sys cs 0 st) = Running"
  shows "\<exists>es. trace (execute_piped_commands sys cs 0 st)
               = trace st @ es @ replicate (length cs) Wait_any
           \<and> list_all (\<lambda>e. prints e = False) es"
proof -
  obtain st1 pf pid where eq: "spawn_stages sys cs 0 0 [] None st = (st1, pf, pid)"
    by (cases "spawn_stages sys cs 0 0 [] None st") auto
  from spawn_stages_silent [of st st sys cs 0 0 "[]" None]
  obtain es where t: "trace st1 = trace st @ es" and q: "list_all (\<lambda>e. prints e = False) es"
    by (auto simp add: eq silent_def)
  from assms have r: "status st1 = Running"
    by (auto simp add: execute_piped_commands_def eq Let_def split: if_splits)
  have "trace (execute_piped_commands sys cs 0 st)
          = trace st @ (es @ map Close pf) @ replicate (length cs) Wait_any"
    using assms(1) r t by (simp add: execute_piped_commands_def eq Let_def emits_def)
  moreover have "list_all (\<lambda>e. prints e = False) (es @ map Close pf)"
    using q by (auto simp add: list_all_iff)
  ultimately show ?thesis by blast
qed

text \<open>
  C2, on the code. With \<^verbatim>\<open>FOO=bar\<close> in the variable store, the first stage of
  \<^verbatim>\<open>echo $FOO | cat\<close> executes \<^verbatim>\<open>echo\<close> with the argument \<^verbatim>\<open>$FOO\<close> itself, while the
  single command \<^verbatim>\<open>echo $FOO\<close> executes it with \<^verbatim>\<open>bar\<close>.
\<close>

theorem pipeline_stage_is_not_substituted:
  "map_option trace (parse_and_execute 1 example_os shell_with_foo ''echo $FOO | cat'') =
     Some [Pipe_ok 3 4,
           Fork_ok 101 \<lparr>child_stdin = None, child_stdout = Some 4,
                        child_argv = [''echo'', ''$FOO'']\<rparr>,
           Close 4,
           Fork_ok 103 \<lparr>child_stdin = Some 3, child_stdout = None, child_argv = [''cat'']\<rparr>,
           Close 3, Close 3, Close 4, Wait_any, Wait_any]
   \<and> map_option trace (parse_and_execute 1 example_os shell_with_foo ''echo $FOO'') =
       Some [Fork_ok 100 \<lparr>child_stdin = None, child_stdout = None,
                          child_argv = [''echo'', ''bar'']\<rparr>,
             Waitpid 100]"
  by (simp add: run_defs)

text \<open>
  C4, on the code. A built-in line never reaches \<^verbatim>\<open>isValidCommand\<close>. In every state,
  \<^verbatim>\<open>local FOO\<close> removes \<^verbatim>\<open>FOO\<close> from the variable store and prints nothing,
  \<^verbatim>\<open>cd a b\<close> changes the directory to \<^verbatim>\<open>a\<close>, and \<^verbatim>\<open>history set abc\<close> resizes the ring
  to 0.
\<close>

theorem malformed_builtin_has_effects:
  "parse_and_execute (Suc n) sys st ''local FOO''
     = Some (st\<lparr>localVars := remove_local ''FOO'' (localVars st)\<rparr>)
   \<and> map_option localVars (parse_and_execute 1 example_os shell_with_foo ''local FOO'') = Some []
   \<and> map_option trace (parse_and_execute 1 example_os shell_with_foo ''local FOO'') = Some []
   \<and> map_option trace (parse_and_execute 1 example_os fresh_shell ''cd a b'')
       = Some [Chdir (Some ''a'') True]
   \<and> parse_and_execute (Suc n) sys st ''history set abc'' = Some (set_history_size sys 0 st)"
  by (simp add: run_defs cmd_local_def cmd_cd_def)


subsection \<open>What external execution leaves alone\<close>

lemma only_io_refl [simp]: "only_io st st"
  by (simp add: only_io_def)

lemma only_io_history: "only_io st st' \<Longrightarrow> history st' = history st"
  by (simp add: only_io_def)

lemma only_io_emit [simp]:
  "only_io a (emit e b) = only_io a b"
  "only_io a (emits es b) = only_io a b"
  "only_io a (c_exit k b) = only_io a b"
  "only_io a (undefined_behaviour b) = only_io a b"
  by (simp_all add: only_io_def emit_def emits_def c_exit_def undefined_behaviour_def)

lemma isValidCommand_only_io [simp]: "only_io a (snd (isValidCommand argv b)) = only_io a b"
  by (simp add: isValidCommand_def split: option.splits)

lemma execute_command_only_io [simp]: "only_io a (execute_command sys argv bg b) = only_io a b"
proof -
  let ?f = "filter (\<lambda>a. a \<noteq> []) (map (substitute_variable b) argv)"
  obtain v st1 where eq: "isValidCommand ?f b = (v, st1)"
    by (cases "isValidCommand ?f b") auto
  have "only_io a st1 = only_io a b"
    using isValidCommand_only_io [of a ?f b] by (simp add: eq)
  then show ?thesis
    by (simp add: execute_command_def eq Let_def split: option.splits)
qed

lemma spawn_stages_only_io [simp]:
  "only_io a (fst (spawn_stages sys cs bg fd pf pid b)) = only_io a b"
proof (induction cs arbitrary: fd pf pid b)
  case Nil
  show ?case by simp
next
  case (Cons c cs)
  show ?case
    by (simp add: create_pipe_def Cons.IH Let_def split: option.splits prod.splits)
qed

lemma execute_piped_commands_only_io [simp]:
  "only_io a (execute_piped_commands sys cs bg b) = only_io a b"
proof -
  obtain st1 pf pid where eq: "spawn_stages sys cs bg 0 [] None b = (st1, pf, pid)"
    by (cases "spawn_stages sys cs bg 0 [] None b") auto
  have "only_io a st1 = only_io a b"
    using spawn_stages_only_io [of a sys cs bg 0 "[]" None b] by (simp add: eq)
  then show ?thesis
    by (simp add: execute_piped_commands_def eq Let_def split: option.splits)
qed

lemma execute_external_only_io [simp]: "only_io a (execute_external sys input b) = only_io a b"
  by (simp add: execute_external_def Let_def split: prod.splits)

lemma builtin_frames [simp]:
  "only_io a (cmd_cd sys p b) = only_io a b"
  "only_io a (cmd_exit argv b) = only_io a b"
  "only_io a (cmd_vars b) = only_io a b"
  "only_io a (print_history b) = only_io a b"
  by (simp_all add: cmd_cd_def cmd_exit_def cmd_vars_def print_history_def split: option.splits)

lemma builtin_history [simp]:
  "history (cmd_cd sys p st) = history st"
  "history (cmd_exit argv st) = history st"
  "history (cmd_vars st) = history st"
  "history (print_history st) = history st"
  by (rule only_io_history, simp)+

lemma var_builtins_history [simp]:
  "history (cmd_export nm v st) = history st"
  "history (cmd_local nm v st) = history st"
  by (simp_all add: cmd_export_def cmd_local_def emit_def undefined_behaviour_def Let_def
      split: option.splits)

subsection \<open>Lines that are executed externally\<close>

lemma strip_newline_Nil [simp]: "strip_newline [] = []"
  by (simp add: strip_newline_def)

lemma is_builtin_line_Nil [simp]: "is_builtin_line [] = False"
  by (simp add: is_builtin_line_def first_token_def strtok_all_def)

lemma add_to_history_disabled:
  "add_to_history_enabled st = False \<Longrightarrow> add_to_history cmd st = st"
  by (simp add: add_to_history_def)

lemma add_to_history_cases:
  "history (add_to_history c x) = history x
   \<or> history (add_to_history c x) = history x @ [c]
   \<or> history (add_to_history c x) = tl (history x) @ [c]"
  by (simp add: add_to_history_def undefined_behaviour_def)

text \<open>One level of recursion is enough for a line that is not a built-in.\<close>

lemma external_line_eq:
  assumes "is_builtin_line line = False" and "line \<noteq> []"
  shows "parse_and_execute (Suc n) sys st line =
     Some (let x = execute_external sys (strip_newline line) st
           in if status x = Running
              then (case first_token (take (MAX_LINE_LENGTH - 1) (strip_newline line)) of
                      None \<Rightarrow> undefined_behaviour x
                    | Some t \<Rightarrow> add_to_history (strip_newline line) x)
              else x)"
proof (cases "first_token (take (MAX_LINE_LENGTH - 1) (strip_newline line))")
  case None
  then show ?thesis using assms(2) by (simp add: parse_and_execute_body_def Let_def)
next
  case (Some t)
  with assms(1) have nb: "isBuiltInCommand t = False" by (simp add: is_builtin_line_def)
  then have "t \<noteq> ''history''" by (auto simp add: isBuiltInCommand_def)
  then show ?thesis using assms(2) Some nb
    by (simp add: parse_and_execute_body_def Let_def)
qed

lemma external_line_result:
  assumes "is_builtin_line line = False"
  shows "\<exists>st1. parse_and_execute (Suc n) sys st line = Some st1
           \<and> (add_to_history_enabled st = False \<longrightarrow> only_io st st1)"
proof (cases "line = []")
  case True
  then show ?thesis by (simp add: parse_and_execute_body_def)
next
  case False
  let ?x = "execute_external sys (strip_newline line) st"
  have io: "only_io st ?x" by simp
  then have en: "add_to_history_enabled ?x = add_to_history_enabled st"
    by (simp add: only_io_def)
  show ?thesis
    unfolding external_line_eq [OF assms False]
    using io en by (auto simp add: Let_def add_to_history_disabled split: option.splits)
qed

lemma external_line_history:
  assumes "is_builtin_line line = False"
    and "parse_and_execute (Suc n) sys st line = Some st'"
  shows "history st' = history st
         \<or> history st' = history st @ [strip_newline line]
         \<or> history st' = tl (history st) @ [strip_newline line]"
proof (cases "line = []")
  case True
  with assms(2) show ?thesis
    by (auto simp add: parse_and_execute_body_def undefined_behaviour_def)
next
  case False
  let ?x = "execute_external sys (strip_newline line) st"
  have hx: "history ?x = history st" by (rule only_io_history) simp
  from add_to_history_cases [of "strip_newline line" ?x] hx
  show ?thesis using assms(2)
    unfolding external_line_eq [OF assms(1) False]
    by (auto simp add: Let_def undefined_behaviour_def split: if_splits option.splits)
qed

subsection \<open>What a built-in line and a recall do to the ring\<close>

lemma evict_oldest_suffix: "suffix (evict_oldest n h) h"
  by (induction h) (auto intro: suffix_ConsI)

lemma evict_oldest_length: "0 \<le> n \<Longrightarrow> length (evict_oldest n h) \<le> nat n"
  by (induction h) auto

lemma set_history_size_suffix: "suffix (history (set_history_size sys n st)) (history st)"
  by (simp add: set_history_size_def Let_def emit_def evict_oldest_suffix evict_oldest_length)

lemma execute_history_command_suffix:
  assumes run: "never_appends run"
    and res: "execute_history_command run k st = Some st'"
  shows "suffix (history st') (history st)"
proof (cases "k < 1 \<or> k > int (length (history st))")
  case True
  with res show ?thesis by (auto simp add: execute_history_command_def emit_def)
next
  case False
  let ?cmd = "history st ! (length (history st) - nat k)"
  from False res obtain st1 where
    r: "run (st\<lparr>add_to_history_enabled := False\<rparr>) ?cmd = Some st1" and
    s: "st' = (if status st1 = Running
               then st1\<lparr>add_to_history_enabled := add_to_history_enabled st\<rparr> else st1)"
    by (auto simp add: execute_history_command_def Let_def split: option.splits)
  from run r have "suffix (history st1) (history st)"
    unfolding never_appends_def by fastforce
  with s show ?thesis by simp
qed

lemma built_in_command_suffix:
  assumes run: "never_appends run"
    and res: "built_in_command sys run argv st = Some st'"
  shows "suffix (history st') (history st)"
  using res execute_history_command_suffix [OF run]
  by (auto simp add: built_in_command_def cmd_history_control_def set_history_size_suffix
      undefined_behaviour_def
      split: option.splits if_splits)

lemma execute_builtin_suffix:
  assumes run: "never_appends run"
    and res: "execute_builtin sys run t input st = Some st'"
  shows "suffix (history st') (history st)"
  using res built_in_command_suffix [OF run]
  by (auto simp add: execute_builtin_def Let_def undefined_behaviour_def
      split: prod.splits if_splits)

text \<open>
  By induction on the depth of recall: a built-in line, and any line executed while
  recording is disabled, leaves a suffix of the ring it found.
\<close>

lemma no_append_general:
  "parse_and_execute n sys st line = Some st' \<Longrightarrow>
   is_builtin_line line \<or> add_to_history_enabled st = False \<Longrightarrow>
   suffix (history st') (history st)"
proof (induction n arbitrary: st line st')
  case 0
  then show ?case by simp
next
  case (Suc n)
  have run: "never_appends (\<lambda>s l. parse_and_execute n sys s l)"
    unfolding never_appends_def using Suc.IH by blast
  show ?case
  proof (cases "is_builtin_line line")
    case False
    with Suc.prems have dis: "add_to_history_enabled st = False" by simp
    from False have f: "is_builtin_line line = False" by simp
    from external_line_result [OF f, of n sys st] dis Suc.prems(1)
    have "only_io st st'" by auto
    then show ?thesis by (simp add: only_io_history)
  next
    case True
    then obtain t where t: "first_token (take (MAX_LINE_LENGTH - 1) (strip_newline line)) = Some t"
      and b: "isBuiltInCommand t"
      by (auto simp add: is_builtin_line_def split: option.splits)
    from True have ne: "line \<noteq> []"
      by auto
    from Suc.prems(1) ne t b obtain st1 where
      e: "execute_builtin sys (\<lambda>s l. parse_and_execute n sys s l) t (strip_newline line) st
            = Some st1"
      and r: "st' = st1"
      by (auto simp add: parse_and_execute_body_def Let_def split: option.splits if_splits)
    from execute_builtin_suffix [OF run e] r show ?thesis by simp
  qed
qed

lemma execute_history_command_returns:
  assumes "\<forall>e\<in>set (history st). \<forall>s. run s e \<noteq> None"
  shows "execute_history_command run k st \<noteq> None"
proof (cases "k < 1 \<or> k > int (length (history st))")
  case True
  then show ?thesis by (auto simp add: execute_history_command_def)
next
  case False
  then have "length (history st) - nat k < length (history st)" by auto
  then have "history st ! (length (history st) - nat k) \<in> set (history st)" by simp
  with assms obtain st1 where
    "run (st\<lparr>add_to_history_enabled := False\<rparr>) (history st ! (length (history st) - nat k))
       = Some st1"
    by fastforce
  with False show ?thesis by (simp add: execute_history_command_def Let_def)
qed

text \<open>
  When no stored line is a built-in line, two levels are enough for a built-in line:
  a recall executes a stored line, which does not recall in turn.
\<close>

lemma builtin_line_returns:
  assumes b: "is_builtin_line line"
    and inv: "\<forall>e\<in>set (history st). is_builtin_line e = False"
  shows "\<exists>st'. parse_and_execute (Suc (Suc n)) sys st line = Some st'"
proof -
  from b have ne: "line \<noteq> []" by auto
  from b obtain t where t: "first_token (take (MAX_LINE_LENGTH - 1) (strip_newline line)) = Some t"
      and bt: "isBuiltInCommand t"
    by (auto simp add: is_builtin_line_def split: option.splits)
  have "\<forall>e\<in>set (history st). \<forall>s. parse_and_execute (Suc n) sys s e \<noteq> None"
  proof (intro ballI allI)
    fix e s
    assume "e \<in> set (history st)"
    with inv have "is_builtin_line e = False" by simp
    from external_line_result [OF this, of n sys s]
    show "parse_and_execute (Suc n) sys s e \<noteq> None" by auto
  qed
  then have h: "\<And>k. execute_history_command (\<lambda>s l. parse_and_execute (Suc n) sys s l) k st
                  \<noteq> None"
    by (rule execute_history_command_returns)
  have "execute_builtin sys (\<lambda>s l. parse_and_execute (Suc n) sys s l) t (strip_newline line) st
          \<noteq> None"
    using h
    by (auto simp add: execute_builtin_def built_in_command_def cmd_history_control_def Let_def
        simp del: parse_and_execute.simps split: prod.splits option.splits)
  then obtain st1 where
    "execute_builtin sys (\<lambda>s l. parse_and_execute (Suc n) sys s l) t (strip_newline line) st
       = Some st1"
    by auto
  then show ?thesis using ne t bt
    by (simp add: parse_and_execute_body_def Let_def del: parse_and_execute.simps
        add: parse_and_execute.simps(2) [of "Suc n"])
qed

text \<open>Stripping the newline again does not change the first token.\<close>

lemma strtok_from_trailing:
  "d \<in> set ds \<Longrightarrow> strtok_from ds cur (s @ [d]) = strtok_from ds cur s"
  by (induction s arbitrary: cur) auto

lemma first_token_strip:
  "first_token (take n (strip_newline s)) = first_token (take n s)"
proof (cases "s \<noteq> [] \<and> last s = newline")
  case False
  then show ?thesis by (auto simp add: strip_newline_def)
next
  case True
  then obtain s' where s: "s = s' @ [newline]" by (metis append_butlast_last_id)
  have "first_token (take n s') = first_token (take n (s' @ [newline]))"
  proof (cases "length s' < n")
    case True
    then show ?thesis
      by (simp add: first_token_def strtok_all_def strtok_from_trailing)
  next
    case False
    then show ?thesis by simp
  qed
  then show ?thesis by (simp add: s strip_newline_def)
qed

lemma is_builtin_line_strip: "is_builtin_line (strip_newline line) = is_builtin_line line"
  unfolding is_builtin_line_def first_token_strip ..

text \<open>
  The ring never holds a built-in line: this holds of the initial state and every line
  keeps it, so the states the interpreter reaches satisfy the hypothesis on stored
  lines of the two theorems below.
\<close>

lemma stored_lines_are_external:
  assumes inv: "\<forall>e\<in>set (history st). is_builtin_line e = False"
    and res: "parse_and_execute n sys st line = Some st'"
  shows "\<forall>e\<in>set (history st'). is_builtin_line e = False"
proof (cases "is_builtin_line line")
  case True
  with res have "suffix (history st') (history st)" using no_append_general by blast
  then have "set (history st') \<subseteq> set (history st)" by (rule set_mono_suffix)
  with inv show ?thesis by blast
next
  case False
  then have f: "is_builtin_line line = False" by simp
  from res obtain m where n: "n = Suc m" by (cases n) auto
  have tl: "\<forall>e\<in>set (tl (history st)). is_builtin_line e = False"
    using inv by (cases "history st") auto
  from external_line_history [OF f res [unfolded n]] inv f tl show ?thesis
    by (auto simp add: is_builtin_line_strip)
qed

lemma initial_shell_stores_nothing: "\<forall>e\<in>set (history (initial_shell e0)). is_builtin_line e = False"
  by (simp add: initial_shell_def)

text \<open>
  C10. A line whose first token is a built-in name never adds to the ring: whenever
  its execution returns, the ring is a suffix of the ring before (entries can only
  have been dropped from the old end, by a resize). It does return, within two levels
  of recursion, in every state whose stored lines are not built-in lines. And for any
  line at all, if the ring afterwards is not such a suffix, then the line was not a
  built-in line and the ring's newest entry is that line.
\<close>

theorem builtin_line_is_not_recorded:
  "(is_builtin_line line \<longrightarrow>
      (\<forall>st'. parse_and_execute n sys st line = Some st' \<longrightarrow> suffix (history st') (history st)))
   \<and> (is_builtin_line line \<longrightarrow> (\<forall>e\<in>set (history st). is_builtin_line e = False) \<longrightarrow>
        (\<exists>st'. parse_and_execute (Suc (Suc n)) sys st line = Some st'))
   \<and> (\<forall>st'. parse_and_execute n sys st line = Some st' \<longrightarrow>
         suffix (history st') (history st)
         \<or> (is_builtin_line line = False
             \<and> (history st' = history st @ [strip_newline line]
                \<or> history st' = tl (history st) @ [strip_newline line])))"
proof (intro conjI impI allI)
  fix st'
  assume "is_builtin_line line" and "parse_and_execute n sys st line = Some st'"
  then show "suffix (history st') (history st)"
    using no_append_general by blast
next
  assume "is_builtin_line line" and "\<forall>e\<in>set (history st). is_builtin_line e = False"
  then show "\<exists>st'. parse_and_execute (Suc (Suc n)) sys st line = Some st'"
    by (rule builtin_line_returns)
next
  fix st'
  assume r: "parse_and_execute n sys st line = Some st'"
  show "suffix (history st') (history st)
         \<or> (is_builtin_line line = False
             \<and> (history st' = history st @ [strip_newline line]
                \<or> history st' = tl (history st) @ [strip_newline line]))"
  proof (cases "is_builtin_line line")
    case True
    with r show ?thesis using no_append_general by blast
  next
    case False
    then have f: "is_builtin_line line = False" by simp
    from r obtain m where n: "n = Suc m" by (cases n) auto
    from external_line_history [OF f r [unfolded n]] f show ?thesis by auto
  qed
qed

lemma ls_is_external [simp]: "is_builtin_line ''ls'' = False"
  by (simp add: is_builtin_line_def first_token_def strip_newline_def strtok_all_def newline_def
      tab_def isBuiltInCommand_def MAX_LINE_LENGTH_def)

lemma history_1_first_token:
  "first_token (take (MAX_LINE_LENGTH - 1) (strip_newline ''history 1'')) = Some ''history''"
  by (simp add: first_token_def strip_newline_def strtok_all_def newline_def tab_def
      MAX_LINE_LENGTH_def)

theorem builtin_line_is_not_recorded_witness:
  "is_builtin_line ''history 1''
   \<and> is_builtin_line ''ls'' = False
   \<and> history shell_with_ls = [''ls'']
   \<and> map_option (\<lambda>s. suffix (history s) (history shell_with_ls))
        (parse_and_execute 2 example_os shell_with_ls ''history 1'') = Some True"
proof -
  have b: "is_builtin_line ''history 1''"
    unfolding is_builtin_line_def history_1_first_token
    by (simp add: isBuiltInCommand_def)
  have h: "history shell_with_ls = [''ls'']"
    by (simp add: shell_with_ls_def)
  then have inv: "\<forall>e\<in>set (history shell_with_ls). is_builtin_line e = False"
    by simp
  from builtin_line_is_not_recorded [of "''history 1''" 0 example_os shell_with_ls] b inv
  obtain st' where r: "parse_and_execute 2 example_os shell_with_ls ''history 1'' = Some st'"
    by (auto simp add: numeral_2_eq_2)
  from builtin_line_is_not_recorded [of "''history 1''" 2 example_os shell_with_ls] b r
  have s: "suffix (history st') (history shell_with_ls)"
    by blast
  from b h r s show ?thesis by simp
qed

lemma recall_result:
  assumes "1 \<le> k" and "k \<le> int (length (history st))"
    and "is_builtin_line (history st ! (length (history st) - nat k)) = False"
  shows "\<exists>st1. parse_and_execute (Suc n) sys (st\<lparr>add_to_history_enabled := False\<rparr>)
                 (history st ! (length (history st) - nat k)) = Some st1
          \<and> only_io (st\<lparr>add_to_history_enabled := False\<rparr>) st1
          \<and> execute_history_command (\<lambda>s l. parse_and_execute (Suc n) sys s l) k st
              = Some (if status st1 = Running
                      then st1\<lparr>add_to_history_enabled := add_to_history_enabled st\<rparr>
                      else st1)"
proof -
  let ?cmd = "history st ! (length (history st) - nat k)"
  let ?s = "st\<lparr>add_to_history_enabled := False\<rparr>"
  from external_line_result [OF assms(3), of n sys ?s]
  obtain st1 where r: "parse_and_execute (Suc n) sys ?s ?cmd = Some st1" and io: "only_io ?s st1"
    by auto
  from assms(1,2) have "\<not> (k < 1 \<or> k > int (length (history st)))" by simp
  then have "execute_history_command (\<lambda>s l. parse_and_execute (Suc n) sys s l) k st
              = Some (if status st1 = Running
                      then st1\<lparr>add_to_history_enabled := add_to_history_enabled st\<rparr>
                      else st1)"
    using r by (simp add: execute_history_command_def Let_def del: parse_and_execute.simps)
  with r io show ?thesis by blast
qed

text \<open>A line that tokenizes into \<^verbatim>\<open>history\<close> and one more token recalls.\<close>

lemma history_line_dispatch:
  assumes "first_token (take (MAX_LINE_LENGTH - 1) (strip_newline line)) = Some ''history''"
    and "process_input (strip_newline line) 0 = ([''history'', a], bg)"
  shows "parse_and_execute (Suc m) sys st line =
     (case execute_history_command (\<lambda>s l. parse_and_execute m sys s l) (atoi a) st of
        None \<Rightarrow> None | Some st1 \<Rightarrow> Some st1)"
proof -
  from assms(1) have "line \<noteq> []"
    by (auto simp add: first_token_def strtok_all_def)
  then show ?thesis using assms
    by (simp add: parse_and_execute_body_def Let_def isBuiltInCommand_def execute_builtin_def
        built_in_command_def cmd_history_control_def arg_def split: option.splits)
qed

text \<open>
  C9. Let the line be \<^verbatim>\<open>history <k>\<close> (it tokenizes into \<^verbatim>\<open>history\<close> and a token that
  \<^verbatim>\<open>atoi\<close> reads as k), with k in range, and let the recalled entry be a line that is
  executed externally, as every stored line is. Then the recalled line is executed in
  the state with recording disabled and returns with recording still disabled; the
  whole line returns, the ring is what it was, and if the interpreter is still running
  the recording flag is what it was (after \<^verbatim>\<open>exit\<close> from a failed \<^verbatim>\<open>fork\<close> nothing is
  restored).
\<close>

theorem recall_does_not_record:
  assumes "first_token (take (MAX_LINE_LENGTH - 1) (strip_newline line)) = Some ''history''"
    and "process_input (strip_newline line) 0 = ([''history'', a], bg)"
    and "atoi a = k"
    and "1 \<le> k" and "k \<le> int (length (history st))"
    and "is_builtin_line (history st ! (length (history st) - nat k)) = False"
  shows "\<exists>st1 st'.
           parse_and_execute (Suc n) sys (st\<lparr>add_to_history_enabled := False\<rparr>)
             (history st ! (length (history st) - nat k)) = Some st1
         \<and> add_to_history_enabled st1 = False
         \<and> parse_and_execute (Suc (Suc n)) sys st line = Some st'
         \<and> st' = (if status st1 = Running
                   then st1\<lparr>add_to_history_enabled := add_to_history_enabled st\<rparr> else st1)
         \<and> history st' = history st
         \<and> (status st' = Running \<longrightarrow> add_to_history_enabled st' = add_to_history_enabled st)"
proof -
  let ?s = "st\<lparr>add_to_history_enabled := False\<rparr>"
  from recall_result [OF assms(4,5,6), of n sys]
  obtain st1 where r: "parse_and_execute (Suc n) sys ?s
                 (history st ! (length (history st) - nat k)) = Some st1"
    and io: "only_io ?s st1"
    and e: "execute_history_command (\<lambda>s l. parse_and_execute (Suc n) sys s l) k st
              = Some (if status st1 = Running
                      then st1\<lparr>add_to_history_enabled := add_to_history_enabled st\<rparr>
                      else st1)"
    by blast
  from io have f: "add_to_history_enabled st1 = False" and h: "history st1 = history st"
    by (simp_all add: only_io_def)
  have t: "parse_and_execute (Suc (Suc n)) sys st line
             = Some (if status st1 = Running
                      then st1\<lparr>add_to_history_enabled := add_to_history_enabled st\<rparr>
                      else st1)"
    unfolding history_line_dispatch [OF assms(1,2)] assms(3) e by simp
  show ?thesis
    using r f h t by (intro exI conjI) (assumption | simp)+
qed

theorem recall_does_not_record_witness:
  "first_token (take (MAX_LINE_LENGTH - 1) (strip_newline ''history 1'')) = Some ''history''
   \<and> process_input (strip_newline ''history 1'') 0 = ([''history'', ''1''], 0)
   \<and> atoi ''1'' = 1
   \<and> 1 \<le> int (length (history shell_with_ls))
   \<and> is_builtin_line (history shell_with_ls ! (length (history shell_with_ls) - nat 1)) = False
   \<and> map_option history (parse_and_execute 2 example_os shell_with_ls ''history 1'')
       = Some [''ls'']"
proof -
  note a = history_1_first_token
  have b: "process_input (strip_newline ''history 1'') 0 = ([''history'', ''1''], 0)"
    by (simp add: process_input_def strip_newline_def strtok_all_def newline_def MAX_ARGS_def)
  have c: "atoi ''1'' = 1"
    by (simp add: atoi_def c_whitespace_def digit_of_def to_long_def to_int32_def)
  have d: "(1::int) \<le> 1" by simp
  have e: "1 \<le> int (length (history shell_with_ls))"
    by (simp add: shell_with_ls_def)
  have f: "is_builtin_line (history shell_with_ls ! (length (history shell_with_ls) - nat 1))
             = False"
    by (simp add: shell_with_ls_def)
  from recall_does_not_record [OF a b c d e f, of 0 example_os]
  obtain st' where
     r: "parse_and_execute (Suc (Suc 0)) example_os shell_with_ls ''history 1'' = Some st'"
     and h: "history st' = history shell_with_ls"
    by blast
  have "map_option history (parse_and_execute 2 example_os shell_with_ls ''history 1'')
          = Some [''ls'']"
    using r h by (simp add: numeral_2_eq_2 shell_with_ls_def)
  with a b c e f show ?thesis by blast
qed

subsection \<open>Failed \<^verbatim>\<open>pipe\<close> and \<^verbatim>\<open>fork\<close>\<close>

lemma quiet_simps [simp]:
  "quiet []" "quiet (e # es) = (spawn_failure e = False \<and> quiet es)"
  "quiet (es @ fs) = (quiet es \<and> quiet fs)"
  by (auto simp add: quiet_def)

lemma spawn_failure_simps [simp]:
  "spawn_failure Pipe_failed" "spawn_failure Fork_failed"
  "spawn_failure (Pipe_ok r w) = False" "spawn_failure (Fork_ok p c) = False"
  by (simp_all add: spawn_failure_def)

lemma count_simps [simp]:
  "forks [] = 0" "pipes [] = 0"
  "forks (es @ fs) = forks es + forks fs" "pipes (es @ fs) = pipes es + pipes fs"
  "forks [Fork_ok p c] = 1" "pipes [Fork_ok p c] = 0"
  "forks [Pipe_ok r w] = 0" "pipes [Pipe_ok r w] = 1"
  by (simp_all add: forks_def pipes_def is_fork_def is_pipe_def)







lemma trace_simps [simp]:
  "trace (undefined_behaviour st) = trace st"
  "trace (c_exit k st) = trace st"
  "trace (emit e st) = trace st @ [e]"
  "trace (emits es st) = trace st @ es"
  "status (emit e st) = status st"
  "status (emits es st) = status st"
  "trace (add_to_history c st) = trace st"
  by (simp_all add: undefined_behaviour_def c_exit_def emit_def emits_def add_to_history_def)

text \<open>How \<open>started\<close> and \<open>failed\<close> extend by one event.\<close>

lemma started_refl [simp]: "started sys st st 0 0"
  by (simp add: started_def)








lemma started_status_only [simp]:
  "started sys a (undefined_behaviour b) k j = started sys a b k j"
  "started sys a (c_exit c b) k j = started sys a b k j"
  by (simp_all add: started_def)


lemma plain_simps [simp]:
  "plain (Stdout s)" "plain (Stderr s)" "plain (Perror s)" "plain (Close fd)"
  "plain (Waitpid p)" "plain Wait_any" "plain (Chdir d b)"
  "plain (usage_error x)" "plain (background_message p)"
  by (simp_all add: plain_def usage_error_def background_message_def)









text \<open>Built-in commands ask for no pipe and no child; a recall hands on what the recalled line does.\<close>

lemma outcome_started: "started sys a b k j \<Longrightarrow> outcome sys a b"
  unfolding outcome_def by blast




lemma outcome_refl [simp]: "outcome sys st st"
  using started_refl [of sys st] by (rule outcome_started)

lemma outcome_undefined [simp]: "outcome sys st (undefined_behaviour st)"
  using started_refl [of sys st]
  by (intro outcome_started [of sys st _ 0 0]) (simp add: undefined_behaviour_def started_def)

















end
